theory Spec2Isabelle
  imports Main "HOL-Library.Word"
begin

unbundle bit_operations_syntax

section \<open>os/net/bluetooth/bluetooth.c: data model\<close>

type_synonym u8 = "8 word"
type_synonym u16 = "16 word"

text \<open>
  C return values. A function of bluetooth.c returns an \<open>int\<close>: either a value it
  computed or received from a collaborator (\<open>Val\<close>: 0, a new identity index, the status
  of a transport call passed through) or \<open>-E\<close> for a macro \<open>E\<close> of errno.h (\<open>Neg\<close>).
  errno.h is not among the sources, so the numeric values stay open; the file only uses
  that every such macro is a positive number, hence \<open>-E\<close> is non-zero and negative.
\<close>

datatype errno = ENOENT | EAGAIN | ENOMEM | EBUSY | ENODEV | EINVAL | ENOBUFS | EALREADY

datatype retval = Val int | Neg errno

text \<open>\<open>if (err)\<close> and \<open>r >= 0\<close> on a return value.\<close>

definition is_err :: "retval \<Rightarrow> bool" where
  "is_err r = (r \<noteq> Val 0)"

fun nonneg :: "retval \<Rightarrow> bool" where
  "nonneg (Val n) = (0 \<le> n)"
| "nonneg (Neg e) = False"

text \<open>
  What a call does: it returns (\<open>Ret\<close>), it leaves the defined behaviour of C by an
  access outside an array (\<open>Fault\<close>), or it never returns (\<open>Hang\<close>: the address
  generation loop of \<open>id_create\<close>).
\<close>

datatype 'a result = Ret 'a | Fault | Hang

subsection \<open>Collaborators\<close>

text \<open>
  The HCI opcodes the file passes to the transport. Their numbers (bt_hcicore.h) are
  only handed through, so they are names here.
\<close>

datatype hci_op =
  BT_HCI_OP_LE_SET_ADV_ENABLE
| BT_HCI_OP_LE_SET_ADV_DATA
| BT_HCI_OP_LE_SET_SCAN_RSP_DATA
| BT_HCI_OP_LE_SET_SCAN_PARAMS
| BT_HCI_OP_LE_SET_SCAN_ENABLE

text \<open>
  Every call bluetooth.c makes into code outside the file is recorded, in order, with its
  arguments: the transport (command buffers and their submission), the driver, the
  initialisers of the lower layers, the random source, the work queue and the
  application's ready callback.
\<close>

datatype ext_call =
  HciCmdCreate hci_op nat
| HciCmdSendSync hci_op "u8 list"
| HciCmdSend hci_op "u8 list"
| BufRelease
| DrvOpen
| HciInitialize
| L2capInit
| BtRand
| WorkQueue
| ReadyCb nat int

text \<open>
  The collaborators' answers. Each is a function of the whole history of calls up to and
  including the one being answered, so an answer may depend on the call's arguments and
  on everything before it. \<open>hci_cmd_create\<close> says whether a buffer was returned (not
  NULL); \<open>bt_rand\<close> gives the status and the six bytes left in the buffer, read as a
  little-endian 48-bit number (\<open>val[5]\<close> is the top byte). \<open>device_name\<close> is
  \<open>CONFIG_BT_DEVICE_NAME\<close>.
\<close>

record env =
  hci_cmd_create :: "ext_call list \<Rightarrow> bool"
  hci_cmd_send_sync :: "ext_call list \<Rightarrow> int"
  drv_open :: "ext_call list \<Rightarrow> int"
  hci_initialize :: "ext_call list \<Rightarrow> int"
  l2cap_init :: "ext_call list \<Rightarrow> int"
  bt_rand :: "ext_call list \<Rightarrow> int \<times> 48 word"
  work_available :: "ext_call list \<Rightarrow> bool"
  work_queue :: "ext_call list \<Rightarrow> int"
  device_name :: string

subsection \<open>Device state\<close>

datatype bt_dev_flag =
  BT_DEV_ENABLE
| BT_DEV_READY
| BT_DEV_USER_ID_ADDR
| BT_DEV_ADVERTISING
| BT_DEV_ADVERTISING_NAME
| BT_DEV_SCANNING
| BT_DEV_EXPLICIT_SCAN
| BT_DEV_ACTIVE_SCAN
| BT_DEV_SCAN_FILTER_DUP

text \<open>\<open>bt_addr_le_t\<close>: an address type and six address bytes.\<close>

record bt_addr_le =
  atype :: u8
  val :: "48 word"

text \<open>
  \<open>g_btdev\<close> together with the file's static variables (\<open>scan_dev_found_cb\<close>,
  \<open>ready_cb\<close>, whether \<open>g_hip_work\<close> is queued) and the history of external calls.
  \<open>name\<close> is the whole character array, so \<open>sizeof(g_btdev.name)\<close> is its length;
  \<open>id_addr\<close> is the whole identity array, so \<open>ARRAY_SIZE(g_btdev.id_addr)\<close> is its
  length. \<open>btdev\<close> says whether a driver is bound (the pointer is not NULL). Callbacks
  are function pointers: \<open>None\<close> is NULL, \<open>Some k\<close> names a function.
\<close>

record bt_dev_s =
  flags :: "bt_dev_flag set"
  name :: string
  id_addr :: "bt_addr_le list"
  id_count :: nat
  adv_id :: nat
  adv_enable :: bool
  btdev :: bool
  scan_dev_found_cb :: "nat option"
  ready_cb :: "nat option"
  hip_work_queued :: bool
  calls :: "ext_call list"

definition call :: "ext_call \<Rightarrow> bt_dev_s \<Rightarrow> bt_dev_s" where
  "call c s = s\<lparr>calls := calls s @ [c]\<rparr>"

text \<open>The atomic bit operations on \<open>g_btdev.flags\<close>.\<close>

definition bt_atomic_testbit :: "bt_dev_s \<Rightarrow> bt_dev_flag \<Rightarrow> bool" where
  "bt_atomic_testbit s f = (f \<in> flags s)"

definition bt_atomic_setbit :: "bt_dev_flag \<Rightarrow> bt_dev_s \<Rightarrow> bt_dev_s" where
  "bt_atomic_setbit f s = s\<lparr>flags := insert f (flags s)\<rparr>"

definition bt_atomic_clrbit :: "bt_dev_flag \<Rightarrow> bt_dev_s \<Rightarrow> bt_dev_s" where
  "bt_atomic_clrbit f s = s\<lparr>flags := flags s - {f}\<rparr>"

text \<open>Test-and-set: the previous value of the bit, and the state with the bit set.\<close>

definition bt_atomic_testsetbit :: "bt_dev_flag \<Rightarrow> bt_dev_s \<Rightarrow> bool \<times> bt_dev_s" where
  "bt_atomic_testsetbit f s = (f \<in> flags s, bt_atomic_setbit f s)"

section \<open>Advertising\<close>

text \<open>
  \<open>set_advertise_enable\<close>. The byte sent is the current \<open>g_btdev.adv_enable\<close>, as the
  source copies it, not the argument.
\<close>

definition set_advertise_enable :: "env \<Rightarrow> bool \<Rightarrow> bt_dev_s \<Rightarrow> retval \<times> bt_dev_s" where
  "set_advertise_enable E enable s =
     (let s1 = call (HciCmdCreate BT_HCI_OP_LE_SET_ADV_ENABLE 1) s in
      if \<not> hci_cmd_create E (calls s1) then (Neg ENOBUFS, s1)
      else
        let s2 = call (HciCmdSendSync BT_HCI_OP_LE_SET_ADV_ENABLE
                        [if adv_enable s1 then 1 else 0]) s1;
            err = hci_cmd_send_sync E (calls s2)
        in if err \<noteq> 0 then (Val err, s2)
           else
             let s3 = s2\<lparr>adv_enable := enable\<rparr>
             in (Val 0, if enable then bt_atomic_setbit BT_DEV_ADVERTISING s3
                        else bt_atomic_clrbit BT_DEV_ADVERTISING s3))"

subsection \<open>The advertising data encoder\<close>

text \<open>
  \<open>struct bt_data\<close>: a record of advertising data, \<open>data_len\<close> bytes at \<open>data\<close> with a
  type tag. \<open>adata\<close> is the memory \<open>data\<close> points to. \<open>struct bt_ad\<close> is an array of
  them with its length.
\<close>

record bt_data =
  dtype :: u8
  data_len :: u8
  adata :: "u8 list"

type_synonym bt_ad = "bt_data list"

text \<open>
  Modelled from the spec: the record types "local name, shortened" and "local name,
  complete" of bluetooth.h, which is not among the sources. The numbers are the ones the
  Bluetooth assigned numbers give them; the file only uses that they differ.
\<close>

definition BT_DATA_NAME_SHORTENED :: u8 where
  "BT_DATA_NAME_SHORTENED = 0x08"

definition BT_DATA_NAME_COMPLETE :: u8 where
  "BT_DATA_NAME_COMPLETE = 0x09"

text \<open>
  \<open>struct bt_hci_cp_le_set_adv_data_s\<close>: a length byte and 31 bytes of data. \<open>len\<close> is
  an unsigned byte: its increments are written with their wrap-around.
\<close>

record set_adv_data =
  len :: nat
  data :: "u8 list"

text \<open>\<open>set_data->data[set_data->len++] = v\<close>; index 31 and beyond is outside the array.\<close>

definition put_byte :: "int \<Rightarrow> set_adv_data \<Rightarrow> set_adv_data result" where
  "put_byte v sd =
     (if len sd < 31
      then Ret (sd\<lparr>data := (data sd)[len sd := word_of_int v], len := (len sd + 1) mod 256\<rparr>)
      else Fault)"

text \<open>
  \<open>memcpy(&set_data->data[set_data->len], src, n); set_data->len += n\<close> with \<open>n\<close> an
  \<open>int\<close>: a negative \<open>n\<close> becomes a huge \<open>size_t\<close>, and a copy that leaves the
  destination array or the source is outside C's defined behaviour.
\<close>

definition copy_bytes :: "u8 list \<Rightarrow> int \<Rightarrow> set_adv_data \<Rightarrow> set_adv_data result" where
  "copy_bytes src n sd =
     (if n < 0 \<or> 31 < len sd + nat n \<or> length src < nat n then Fault
      else Ret (sd\<lparr>data := take (len sd) (data sd) @ take (nat n) src
                            @ drop (len sd + nat n) (data sd),
                    len := (len sd + nat n) mod 256\<rparr>))"

text \<open>
  The three writes that end the loop body (length byte, type byte, payload).
\<close>

definition emit :: "int \<Rightarrow> u8 \<Rightarrow> u8 list \<Rightarrow> set_adv_data \<Rightarrow> set_adv_data result" where
  "emit n t src sd =
     (case put_byte (n + 1) sd of
        Ret sd1 \<Rightarrow>
          (case put_byte (uint t) sd1 of
             Ret sd2 \<Rightarrow> copy_bytes src n sd2
           | Fault \<Rightarrow> Fault | Hang \<Rightarrow> Hang)
      | Fault \<Rightarrow> Fault | Hang \<Rightarrow> Hang)"

text \<open>
  The body of the inner loop for one record: \<open>Inl r\<close> is the early \<open>return r\<close> (after
  the buffer was released), \<open>Inr sd\<close> goes on with the next record.
\<close>

definition ad_entry :: "bt_data \<Rightarrow> set_adv_data \<Rightarrow> (retval + set_adv_data) result" where
  "ad_entry d sd =
     (let n = uint (data_len d); t = dtype d in
      if 31 < int (len sd) + n + 2
      then
        (let n' = 31 - (int (len sd) + 2) in
         if t \<noteq> BT_DATA_NAME_COMPLETE \<or> n' = 0 then Ret (Inl (Neg EINVAL))
         else
           (case emit n' BT_DATA_NAME_SHORTENED (adata d) sd of
              Ret sd' \<Rightarrow> Ret (Inr sd') | Fault \<Rightarrow> Fault | Hang \<Rightarrow> Hang))
      else
        (case emit n t (adata d) sd of
           Ret sd' \<Rightarrow> Ret (Inr sd') | Fault \<Rightarrow> Fault | Hang \<Rightarrow> Hang))"

text \<open>The inner loop over the records of one \<open>bt_ad\<close>, the outer loop over the array.\<close>

fun ad_records :: "bt_data list \<Rightarrow> set_adv_data \<Rightarrow> (retval + set_adv_data) result" where
  "ad_records [] sd = Ret (Inr sd)"
| "ad_records (d # ds) sd =
     (case ad_entry d sd of
        Ret (Inr sd') \<Rightarrow> ad_records ds sd'
      | other \<Rightarrow> other)"

fun ad_sets :: "bt_ad list \<Rightarrow> set_adv_data \<Rightarrow> (retval + set_adv_data) result" where
  "ad_sets [] sd = Ret (Inr sd)"
| "ad_sets (a # as) sd =
     (case ad_records a sd of
        Ret (Inr sd') \<Rightarrow> ad_sets as sd'
      | other \<Rightarrow> other)"

text \<open>The command parameters as the bytes of the buffer: the length byte, then the data.\<close>

definition set_data_bytes :: "set_adv_data \<Rightarrow> u8 list" where
  "set_data_bytes sd = word_of_nat (len sd) # data sd"

text \<open>\<open>memset(set_data, 0, sizeof(*set_data))\<close>.\<close>

definition set_data_zero :: set_adv_data where
  "set_data_zero = \<lparr>len = 0, data = replicate 31 0\<rparr>"

definition set_ad :: "env \<Rightarrow> hci_op \<Rightarrow> bt_ad list \<Rightarrow> bt_dev_s \<Rightarrow> (retval \<times> bt_dev_s) result" where
  "set_ad E op ad s =
     (let s1 = call (HciCmdCreate op 32) s in
      if \<not> hci_cmd_create E (calls s1) then Ret (Neg ENOBUFS, s1)
      else
        (case ad_sets ad set_data_zero of
           Ret (Inl r) \<Rightarrow> Ret (r, call BufRelease s1)
         | Ret (Inr sd) \<Rightarrow>
             (let s2 = call (HciCmdSendSync op (set_data_bytes sd)) s1
              in Ret (Val (hci_cmd_send_sync E (calls s2)), s2))
         | Fault \<Rightarrow> Fault
         | Hang \<Rightarrow> Hang))"

section \<open>The device name\<close>

text \<open>
  C strings. A \<open>char *\<close> is modelled by the characters stored from the pointer on; the
  string it denotes ends before the first NUL.
\<close>

definition NUL :: char where
  "NUL = CHR 0x00"

definition c_str :: "string \<Rightarrow> string" where
  "c_str m = takeWhile (\<lambda>c. c \<noteq> NUL) m"

definition strlen :: "string \<Rightarrow> nat" where
  "strlen m = length (c_str m)"

text \<open>\<open>strcmp(a, b)\<close> as the truth value of \<open>strcmp(a, b) != 0\<close>.\<close>

definition strcmp :: "string \<Rightarrow> string \<Rightarrow> bool" where
  "strcmp a b = (c_str a \<noteq> c_str b)"

text \<open>
  \<open>strncpy(dst, src, n)\<close> with \<open>n\<close> at most the size of \<open>dst\<close>: the string, cut at
  \<open>n\<close> characters and padded with NUL up to \<open>n\<close>.
\<close>

definition strncpy :: "string \<Rightarrow> string \<Rightarrow> nat \<Rightarrow> string" where
  "strncpy dst src n = take n (c_str src @ replicate n NUL) @ drop n dst"

text \<open>
  \<open>bt_set_name\<close>. The results of \<open>set_ad\<close> and of both \<open>set_advertise_enable\<close>
  calls are dropped, as in the source. \<open>BT_DATA(BT_DATA_NAME_COMPLETE, name,
  strlen(name))\<close> stores the length in the byte \<open>data_len\<close>.
\<close>

definition bt_set_name :: "env \<Rightarrow> string \<Rightarrow> bt_dev_s \<Rightarrow> (retval \<times> bt_dev_s) result" where
  "bt_set_name E nm s =
     (if length (name s) \<le> strlen nm then Ret (Neg ENOMEM, s)
      else if \<not> strcmp (name s) nm then Ret (Val 0, s)
      else
        (let s1 = s\<lparr>name := strncpy (name s) nm (length (name s))\<rparr> in
         if bt_atomic_testbit s1 BT_DEV_ADVERTISING_NAME
         then
           (let d = \<lparr>dtype = BT_DATA_NAME_COMPLETE,
                     data_len = word_of_nat (strlen nm),
                     adata = map of_char (c_str nm)\<rparr>
            in case set_ad E BT_HCI_OP_LE_SET_SCAN_RSP_DATA [[d]] s1 of
                 Ret (r, s2) \<Rightarrow>
                   if bt_atomic_testbit s2 BT_DEV_ADVERTISING
                   then
                     (let s3 = snd (set_advertise_enable E False s2);
                          s4 = snd (set_advertise_enable E True s3)
                      in Ret (Val 0, s4))
                   else Ret (Val 0, s2)
               | Fault \<Rightarrow> Fault
               | Hang \<Rightarrow> Hang)
         else Ret (Val 0, s1)))"

text \<open>\<open>bt_get_name\<close> returns the address of the name array.\<close>

definition bt_get_name :: "bt_dev_s \<Rightarrow> string" where
  "bt_get_name s = name s"

section \<open>Initialisation\<close>

text \<open>\<open>bt_dev_show_info\<close> only prints, so \<open>bt_finalize_init\<close> is the one flag.\<close>

definition bt_finalize_init :: "bt_dev_s \<Rightarrow> bt_dev_s" where
  "bt_finalize_init s = bt_atomic_setbit BT_DEV_READY s"

definition bt_conn_init :: "env \<Rightarrow> bt_dev_s \<Rightarrow> int \<times> bt_dev_s" where
  "bt_conn_init E s =
     (let s1 = call L2capInit s; err = l2cap_init E (calls s1)
      in if err < 0 then (err, s1) else (err, s1))"

definition bt_init :: "env \<Rightarrow> bt_dev_s \<Rightarrow> int \<times> bt_dev_s" where
  "bt_init E s =
     (let s1 = call HciInitialize s; ret = hci_initialize E (calls s1) in
      if ret < 0 then (ret, s1)
      else
        (let (ret', s2) = bt_conn_init E s1 in
         if ret' < 0 then (ret', s2)
         else (ret', bt_finalize_init s2)))"

text \<open>
  \<open>init_work\<close> is the function the work queue runs later; running it takes the work
  item off the queue.
\<close>

definition init_work :: "env \<Rightarrow> bt_dev_s \<Rightarrow> bt_dev_s" where
  "init_work E s =
     (let (err, s1) = bt_init E (s\<lparr>hip_work_queued := False\<rparr>) in
      case ready_cb s1 of
        Some k \<Rightarrow> call (ReadyCb k err) s1
      | None \<Rightarrow> s1)"

definition k_work_submit :: "env \<Rightarrow> bt_dev_s \<Rightarrow> bt_dev_s" where
  "k_work_submit E s =
     (if work_available E (calls s)
      then
        (let s1 = call WorkQueue s; err = work_queue E (calls s1) in
         if err < 0 then s1 else s1\<lparr>hip_work_queued := True\<rparr>)
      else s)"

definition bt_enable :: "env \<Rightarrow> nat option \<Rightarrow> bt_dev_s \<Rightarrow> (retval \<times> bt_dev_s) result" where
  "bt_enable E cb s =
     (if \<not> btdev s then Ret (Neg ENODEV, s)
      else
        (let (was_set, s1) = bt_atomic_testsetbit BT_DEV_ENABLE s in
         if was_set then Ret (Neg EALREADY, s1)
         else
           (case bt_set_name E (device_name E) s1 of
              Ret (r, s2) \<Rightarrow>
                (let s3 = s2\<lparr>ready_cb := cb\<rparr>;
                     s4 = call DrvOpen s3;
                     err = drv_open E (calls s4)
                 in if err \<noteq> 0 then Ret (Val err, s4)
                    else if cb = None
                    then (let (ret, s5) = bt_init E s4 in Ret (Val ret, s5))
                    else Ret (Val 0, k_work_submit E s4))
            | Fault \<Rightarrow> Fault
            | Hang \<Rightarrow> Hang)))"

section \<open>Identity addresses\<close>

text \<open>
  Modelled from the spec: the address macros of bluetooth.h, which is not among the
  sources. \<open>BT_ADDR_LE_ANY\<close> is the wildcard address (all zero), \<open>BT_ADDR_LE_RANDOM\<close>
  the type of a random address, and a static random address has the two top bits of its
  most significant byte set (\<open>val[5] & 0xc0\<close>). \<open>BT_ID_DEFAULT\<close> is identity 0.
\<close>

definition BT_ADDR_LE_ANY :: bt_addr_le where
  "BT_ADDR_LE_ANY = \<lparr>atype = 0, val = 0\<rparr>"

definition BT_ADDR_LE_RANDOM :: u8 where
  "BT_ADDR_LE_RANDOM = 0x01"

definition BT_ADDR_IS_STATIC :: "bt_addr_le \<Rightarrow> bool" where
  "BT_ADDR_IS_STATIC a = (val a AND 0xC00000000000 = 0xC00000000000)"

definition BT_ADDR_SET_STATIC :: "bt_addr_le \<Rightarrow> bt_addr_le" where
  "BT_ADDR_SET_STATIC a = a\<lparr>val := val a OR 0xC00000000000\<rparr>"

definition BT_ID_DEFAULT :: nat where
  "BT_ID_DEFAULT = 0"

text \<open>\<open>bt_addr_le_cmp(a, b)\<close> as the truth value of \<open>bt_addr_le_cmp(a, b) != 0\<close>.\<close>

definition bt_addr_le_cmp :: "bt_addr_le \<Rightarrow> bt_addr_le \<Rightarrow> bool" where
  "bt_addr_le_cmp a b = (a \<noteq> b)"

text \<open>
  \<open>create_random_addr\<close> and \<open>bt_addr_le_create_static\<close>, on the local \<open>new_addr\<close> of
  \<open>id_create\<close>. When \<open>bt_rand\<close> fails the static bits are not set and the address
  keeps the bytes the buffer holds.
\<close>

definition create_random_addr :: "env \<Rightarrow> bt_dev_s \<Rightarrow> int \<times> bt_addr_le \<times> bt_dev_s" where
  "create_random_addr E s =
     (let s1 = call BtRand s; (err, v) = bt_rand E (calls s1)
      in (err, \<lparr>atype = BT_ADDR_LE_RANDOM, val = v\<rparr>, s1))"

definition bt_addr_le_create_static :: "env \<Rightarrow> bt_dev_s \<Rightarrow> int \<times> bt_addr_le \<times> bt_dev_s" where
  "bt_addr_le_create_static E s =
     (let (err, a, s1) = create_random_addr E s in
      if err \<noteq> 0 then (err, a, s1)
      else (0, BT_ADDR_SET_STATIC a, s1))"

text \<open>\<open>bt_unpair\<close> is a stub of this file.\<close>

definition bt_unpair :: "nat \<Rightarrow> int" where
  "bt_unpair idx = 0"

text \<open>
  \<open>id_find\<close>: the loop over \<open>id_addr[0 .. id_count)\<close>, with the entries still to read,
  the number of indices still to visit and the current index. Reading past the end of
  the array is a fault.
\<close>

fun id_find_from :: "bt_addr_le \<Rightarrow> bt_addr_le list \<Rightarrow> nat \<Rightarrow> nat \<Rightarrow> retval result" where
  "id_find_from a tbl 0 i = Ret (Neg ENOENT)"
| "id_find_from a [] (Suc n) i = Fault"
| "id_find_from a (x # xs) (Suc n) i =
     (if \<not> bt_addr_le_cmp a x then Ret (Val (int i)) else id_find_from a xs n (Suc i))"

definition id_find :: "bt_addr_le \<Rightarrow> bt_dev_s \<Rightarrow> retval result" where
  "id_find a s = id_find_from a (id_addr s) (id_count s) 0"

text \<open>\<open>g_btdev.id_addr[idx] = a\<close>.\<close>

definition id_store :: "nat \<Rightarrow> bt_addr_le \<Rightarrow> bt_dev_s \<Rightarrow> bt_dev_s result" where
  "id_store idx a s =
     (if idx < length (id_addr s) then Ret (s\<lparr>id_addr := (id_addr s)[idx := a]\<rparr>) else Fault)"

text \<open>
  The do-while loop of \<open>id_create\<close>: draw an address until \<open>id_find\<close> does not find it.
  The loop has no bound; \<open>None\<close> is the run that never leaves it.
\<close>

definition found :: "retval result \<Rightarrow> bool" where
  "found f = (case f of Ret r \<Rightarrow> nonneg r | Fault \<Rightarrow> False | Hang \<Rightarrow> False)"

partial_function (option) new_static_addr ::
    "env \<Rightarrow> bt_dev_s \<Rightarrow> (bt_addr_le \<times> bt_dev_s) result option" where
  "new_static_addr E s =
     (let p = bt_addr_le_create_static E s; a = fst (snd p); s1 = snd (snd p);
          f = id_find a s1
      in if f = Fault then Some Fault
         else if found f then new_static_addr E s1
         else Some (Ret (a, s1)))"

text \<open>
  \<open>id_create\<close>. \<open>addr\<close> is \<open>None\<close> for a NULL pointer. The copy of the generated
  address back through \<open>addr\<close> writes to the caller's variable, not to the device state.
\<close>

definition id_create :: "env \<Rightarrow> nat \<Rightarrow> bt_addr_le option \<Rightarrow> bt_dev_s \<Rightarrow> bt_dev_s result" where
  "id_create E idx addr s =
     (case (if addr = None then None
            else if bt_addr_le_cmp (the addr) BT_ADDR_LE_ANY then addr else None) of
        Some a \<Rightarrow> id_store idx a s
      | None \<Rightarrow>
          (case new_static_addr E s of
             None \<Rightarrow> Hang
           | Some Hang \<Rightarrow> Hang
           | Some Fault \<Rightarrow> Fault
           | Some (Ret (a, s1)) \<Rightarrow> id_store idx a s1))"

text \<open>
  The check on a supplied address that opens both \<open>bt_id_create\<close> and \<open>bt_id_reset\<close>:
  \<open>Some r\<close> is the early \<open>return r\<close>.
\<close>

definition id_addr_check :: "bt_addr_le option \<Rightarrow> bt_dev_s \<Rightarrow> retval option result" where
  "id_addr_check addr s =
     (case addr of
        None \<Rightarrow> Ret None
      | Some a \<Rightarrow>
          if bt_addr_le_cmp a BT_ADDR_LE_ANY
          then
            (if atype a \<noteq> BT_ADDR_LE_RANDOM \<or> \<not> BT_ADDR_IS_STATIC a
             then Ret (Some (Neg EINVAL))
             else
               (case id_find a s of
                  Ret r \<Rightarrow> if nonneg r then Ret (Some (Neg EALREADY)) else Ret None
                | Fault \<Rightarrow> Fault
                | Hang \<Rightarrow> Hang))
          else Ret None)"

definition bt_id_create :: "env \<Rightarrow> bt_addr_le option \<Rightarrow> bt_dev_s \<Rightarrow> (retval \<times> bt_dev_s) result" where
  "bt_id_create E addr s =
     (case id_addr_check addr s of
        Ret (Some r) \<Rightarrow> Ret (r, s)
      | Ret None \<Rightarrow>
          if id_count s = length (id_addr s) then Ret (Neg ENOMEM, s)
          else
            (let new_id = id_count s;
                 s1 = s\<lparr>id_count := id_count s + 1\<rparr>;
                 s2 = (if new_id = BT_ID_DEFAULT \<and> \<not> bt_atomic_testbit s1 BT_DEV_READY
                       then bt_atomic_setbit BT_DEV_USER_ID_ADDR s1 else s1)
             in case id_create E new_id addr s2 of
                  Ret s3 \<Rightarrow> Ret (Val (int new_id), s3)
                | Fault \<Rightarrow> Fault
                | Hang \<Rightarrow> Hang)
      | Fault \<Rightarrow> Fault
      | Hang \<Rightarrow> Hang)"

definition bt_id_reset ::
    "env \<Rightarrow> nat \<Rightarrow> bt_addr_le option \<Rightarrow> bt_dev_s \<Rightarrow> (retval \<times> bt_dev_s) result" where
  "bt_id_reset E idx addr s =
     (case id_addr_check addr s of
        Ret (Some r) \<Rightarrow> Ret (r, s)
      | Ret None \<Rightarrow>
          if idx = BT_ID_DEFAULT \<or> id_count s \<le> idx then Ret (Neg EINVAL, s)
          else if idx = adv_id s \<and> bt_atomic_testbit s BT_DEV_ADVERTISING then Ret (Neg EBUSY, s)
          else if length (id_addr s) \<le> idx then Fault
          else if bt_addr_le_cmp (id_addr s ! idx) BT_ADDR_LE_ANY \<and> bt_unpair idx \<noteq> 0
          then Ret (Val (bt_unpair idx), s)
          else
            (case id_create E idx addr s of
               Ret s1 \<Rightarrow> Ret (Val (int idx), s1)
             | Fault \<Rightarrow> Fault
             | Hang \<Rightarrow> Hang)
      | Fault \<Rightarrow> Fault
      | Hang \<Rightarrow> Hang)"

definition bt_id_delete :: "nat \<Rightarrow> bt_dev_s \<Rightarrow> (retval \<times> bt_dev_s) result" where
  "bt_id_delete idx s =
     (if idx = BT_ID_DEFAULT \<or> id_count s \<le> idx then Ret (Neg EINVAL, s)
      else if length (id_addr s) \<le> idx then Fault
      else if \<not> bt_addr_le_cmp (id_addr s ! idx) BT_ADDR_LE_ANY then Ret (Neg EALREADY, s)
      else if idx = adv_id s \<and> bt_atomic_testbit s BT_DEV_ADVERTISING then Ret (Neg EBUSY, s)
      else if bt_unpair idx \<noteq> 0 then Ret (Val (bt_unpair idx), s)
      else
        (let s1 = s\<lparr>id_addr := (id_addr s)[idx := BT_ADDR_LE_ANY]\<rparr>;
             s2 = (if int idx = int (id_count s1) - 1
                   then s1\<lparr>id_count := id_count s1 - 1\<rparr> else s1)
         in Ret (Val 0, s2)))"

definition bt_set_id_addr :: "env \<Rightarrow> bt_addr_le \<Rightarrow> bt_dev_s \<Rightarrow> (retval \<times> bt_dev_s) result" where
  "bt_set_id_addr E addr s =
     (if bt_atomic_testbit s BT_DEV_READY then Ret (Neg EBUSY, s)
      else bt_id_create E (Some addr) s)"

section \<open>LE scan\<close>

text \<open>
  \<open>struct bt_le_scan_param\<close>: the scan type (field \<open>type\<close>), the duplicate filter,
  and interval and window as 16-bit numbers.
\<close>

record bt_le_scan_param =
  stype :: u8
  filter_dup :: u8
  interval :: u16
  window :: u16

text \<open>
  Modelled from the spec: the scan macros of bluetooth.h and bt_hcicore.h, which are not
  among the sources: scan type passive or active, duplicate filter disabled or enabled,
  scan disabled or enabled, with the values of the HCI command parameters.
\<close>

definition BT_LE_SCAN_PASSIVE :: u8 where
  "BT_LE_SCAN_PASSIVE = 0x00"

definition BT_LE_SCAN_ACTIVE :: u8 where
  "BT_LE_SCAN_ACTIVE = 0x01"

definition BT_LE_SCAN_FILTER_DUP_DISABLE :: u8 where
  "BT_LE_SCAN_FILTER_DUP_DISABLE = 0x00"

definition BT_LE_SCAN_FILTER_DUP_ENABLE :: u8 where
  "BT_LE_SCAN_FILTER_DUP_ENABLE = 0x01"

definition BT_LE_SCAN_DISABLE :: u8 where
  "BT_LE_SCAN_DISABLE = 0x00"

definition BT_LE_SCAN_ENABLE :: u8 where
  "BT_LE_SCAN_ENABLE = 0x01"

definition valid_le_scan_param :: "bt_le_scan_param \<Rightarrow> bool" where
  "valid_le_scan_param param =
     (if stype param \<noteq> BT_LE_SCAN_PASSIVE \<and> stype param \<noteq> BT_LE_SCAN_ACTIVE then False
      else if filter_dup param \<noteq> BT_LE_SCAN_FILTER_DUP_DISABLE
              \<and> filter_dup param \<noteq> BT_LE_SCAN_FILTER_DUP_ENABLE then False
      else if interval param < 0x0004 \<or> 0x4000 < interval param then False
      else if window param < 0x0004 \<or> 0x4000 < window param then False
      else if interval param < window param then False
      else True)"

text \<open>
  \<open>set_le_scan_enable\<close>. The command parameters are the two bytes \<open>enable\<close> and
  \<open>filter_dup\<close>.
\<close>

definition set_le_scan_enable :: "env \<Rightarrow> u8 \<Rightarrow> bt_dev_s \<Rightarrow> retval \<times> bt_dev_s" where
  "set_le_scan_enable E enable s =
     (let s1 = call (HciCmdCreate BT_HCI_OP_LE_SET_SCAN_ENABLE 2) s in
      if \<not> hci_cmd_create E (calls s1) then (Neg ENOBUFS, s1)
      else
        (let fd = (if enable = BT_LE_SCAN_ENABLE
                   then (if bt_atomic_testbit s1 BT_DEV_SCAN_FILTER_DUP then 1 else 0)
                   else BT_LE_SCAN_FILTER_DUP_DISABLE);
             s2 = call (HciCmdSendSync BT_HCI_OP_LE_SET_SCAN_ENABLE [enable, fd]) s1;
             err = hci_cmd_send_sync E (calls s2)
         in if err \<noteq> 0 then (Val err, s2)
            else (Val 0, if enable \<noteq> 0 then bt_atomic_setbit BT_DEV_SCANNING s2
                         else bt_atomic_clrbit BT_DEV_SCANNING s2)))"

text \<open>\<open>sys_cpu_to_le16\<close>: the low byte first.\<close>

definition le16 :: "u16 \<Rightarrow> u8 list" where
  "le16 w = [ucast w, ucast (drop_bit 8 w)]"

text \<open>
  \<open>start_le_scan\<close>. The parameter command is sent without waiting for an answer
  (\<open>bt_hci_cmd_send\<close>); its bytes are the scan type, interval, window, own address
  type 0 and filter policy 0.
\<close>

definition start_le_scan :: "env \<Rightarrow> u8 \<Rightarrow> u16 \<Rightarrow> u16 \<Rightarrow> bt_dev_s \<Rightarrow> retval \<times> bt_dev_s" where
  "start_le_scan E scan_type itv win s =
     (let s1 = call (HciCmdCreate BT_HCI_OP_LE_SET_SCAN_PARAMS 7) s in
      if \<not> hci_cmd_create E (calls s1) then (Neg ENOBUFS, s1)
      else
        (let s2 = call (HciCmdSend BT_HCI_OP_LE_SET_SCAN_PARAMS
                         ([scan_type] @ le16 itv @ le16 win @ [0x00, 0x00])) s1;
             (err, s3) = set_le_scan_enable E BT_LE_SCAN_ENABLE s2
         in if is_err err then (err, s3)
            else (Val 0, if scan_type = BT_LE_SCAN_ACTIVE
                         then bt_atomic_setbit BT_DEV_ACTIVE_SCAN s3
                         else bt_atomic_clrbit BT_DEV_ACTIVE_SCAN s3)))"

text \<open>
  \<open>bt_le_scan_start\<close>, in two parts: the step that runs when a scan is already on
  (the preliminary disable), and the whole function.
\<close>

definition scan_stop_running :: "env \<Rightarrow> bt_dev_s \<Rightarrow> retval \<times> bt_dev_s" where
  "scan_stop_running E s =
     (if bt_atomic_testbit s BT_DEV_SCANNING
      then set_le_scan_enable E BT_LE_SCAN_DISABLE s
      else (Val 0, s))"

definition bt_le_scan_start ::
    "env \<Rightarrow> bt_le_scan_param \<Rightarrow> nat option \<Rightarrow> bt_dev_s \<Rightarrow> retval \<times> bt_dev_s" where
  "bt_le_scan_start E param cb s =
     (if \<not> bt_atomic_testbit s BT_DEV_READY then (Neg EAGAIN, s)
      else if \<not> valid_le_scan_param param then (Neg EINVAL, s)
      else
        (let (was_set, s1) = bt_atomic_testsetbit BT_DEV_EXPLICIT_SCAN s in
         if was_set then (Neg EALREADY, s1)
         else
           (let (err, s2) = scan_stop_running E s1 in
            if is_err err then (err, bt_atomic_clrbit BT_DEV_EXPLICIT_SCAN s2)
            else
              (let s3 = (if filter_dup param \<noteq> 0
                         then bt_atomic_setbit BT_DEV_SCAN_FILTER_DUP s2
                         else bt_atomic_clrbit BT_DEV_SCAN_FILTER_DUP s2);
                   (err', s4) = start_le_scan E (stype param) (interval param) (window param) s3
               in if is_err err' then (err', bt_atomic_clrbit BT_DEV_EXPLICIT_SCAN s4)
                  else (Val 0, s4\<lparr>scan_dev_found_cb := cb\<rparr>)))))"

section \<open>Sequences of calls\<close>

text \<open>
  The entry points of the file an application (or, for \<open>init_work\<close>, the work queue)
  can call, and a run of such calls one after the other. A queued \<open>init_work\<close> runs
  only while the work item is queued.
\<close>

datatype api =
  Bt_set_name string
| Bt_enable "nat option"
| Init_work
| Bt_set_id_addr bt_addr_le
| Bt_id_create "bt_addr_le option"
| Bt_id_reset nat "bt_addr_le option"
| Bt_id_delete nat
| Bt_le_scan_start bt_le_scan_param "nat option"

definition state_of :: "('a \<times> bt_dev_s) result \<Rightarrow> bt_dev_s result" where
  "state_of r = (case r of Ret (v, s) \<Rightarrow> Ret s | Fault \<Rightarrow> Fault | Hang \<Rightarrow> Hang)"

fun api_call :: "env \<Rightarrow> api \<Rightarrow> bt_dev_s \<Rightarrow> bt_dev_s result" where
  "api_call E (Bt_set_name nm) s = state_of (bt_set_name E nm s)"
| "api_call E (Bt_enable cb) s = state_of (bt_enable E cb s)"
| "api_call E Init_work s = (if hip_work_queued s then Ret (init_work E s) else Ret s)"
| "api_call E (Bt_set_id_addr a) s = state_of (bt_set_id_addr E a s)"
| "api_call E (Bt_id_create a) s = state_of (bt_id_create E a s)"
| "api_call E (Bt_id_reset i a) s = state_of (bt_id_reset E i a s)"
| "api_call E (Bt_id_delete i) s = state_of (bt_id_delete i s)"
| "api_call E (Bt_le_scan_start p cb) s = Ret (snd (bt_le_scan_start E p cb s))"

fun run :: "env \<Rightarrow> api list \<Rightarrow> bt_dev_s \<Rightarrow> bt_dev_s result" where
  "run E [] s = Ret s"
| "run E (c # cs) s =
     (case api_call E c s of
        Ret s' \<Rightarrow> run E cs s'
      | Fault \<Rightarrow> Fault
      | Hang \<Rightarrow> Hang)"

section \<open>The encoding the specification describes\<close>

text \<open>
  The specification's words for the advertising payload: a record is serialised as the
  triple of a length byte (payload length + 1), the type byte and the payload bytes; a
  record set is the concatenation of its triples in the order given, and its cumulative
  encoded length is the sum of payload length + 2 over the records.
\<close>

definition ad_triple :: "bt_data \<Rightarrow> u8 list" where
  "ad_triple d = [word_of_nat (length (adata d) + 1), dtype d] @ adata d"

definition ad_encoded :: "bt_data list \<Rightarrow> u8 list" where
  "ad_encoded ds = concat (map ad_triple ds)"

definition ad_total :: "bt_data list \<Rightarrow> nat" where
  "ad_total ds = sum_list (map (\<lambda>d. length (adata d) + 2) ds)"

section \<open>Sample collaborators and a sample device\<close>

text \<open>
  A transport, driver and lower layers that accept everything (the random source
  answers with the number of calls made so far), and a device before \<open>bt_enable\<close>: no
  flag set, an empty name in an array of 8 characters, four free identity slots, a driver
  bound.
\<close>

definition env_ok :: env where
  "env_ok = \<lparr>hci_cmd_create = (\<lambda>h. True), hci_cmd_send_sync = (\<lambda>h. 0),
              drv_open = (\<lambda>h. 0), hci_initialize = (\<lambda>h. 0), l2cap_init = (\<lambda>h. 0),
              bt_rand = (\<lambda>h. (0, word_of_nat (length h))),
              work_available = (\<lambda>h. True), work_queue = (\<lambda>h. 0),
              device_name = ''bt''\<rparr>"

definition dev_boot :: bt_dev_s where
  "dev_boot = \<lparr>flags = {}, name = replicate 8 NUL, id_addr = replicate 4 BT_ADDR_LE_ANY,
                id_count = 0, adv_id = 0, adv_enable = False, btdev = True,
                scan_dev_found_cb = None, ready_cb = None, hip_work_queued = False,
                calls = []\<rparr>"

text \<open>The sample device once initialised, and a transport whose synchronous commands fail.\<close>

definition dev_ready :: bt_dev_s where
  "dev_ready = dev_boot\<lparr>flags := {BT_DEV_ENABLE, BT_DEV_READY}\<rparr>"

text \<open>The ready device with a scan already running.\<close>

definition dev_scanning :: bt_dev_s where
  "dev_scanning = dev_boot\<lparr>flags := {BT_DEV_ENABLE, BT_DEV_READY, BT_DEV_SCANNING}\<rparr>"

definition env_sync_fails :: env where
  "env_sync_fails = env_ok\<lparr>hci_cmd_send_sync := (\<lambda>h. - 5)\<rparr>"

text \<open>
  Four static random addresses, and the sample device with a given identity table and
  count (as it is after identities were created before initialisation).
\<close>

definition addr_a :: bt_addr_le where
  "addr_a = \<lparr>atype = BT_ADDR_LE_RANDOM, val = 0xC00000000001\<rparr>"

definition addr_b :: bt_addr_le where
  "addr_b = \<lparr>atype = BT_ADDR_LE_RANDOM, val = 0xC00000000002\<rparr>"

definition addr_c :: bt_addr_le where
  "addr_c = \<lparr>atype = BT_ADDR_LE_RANDOM, val = 0xC00000000003\<rparr>"

definition addr_d :: bt_addr_le where
  "addr_d = \<lparr>atype = BT_ADDR_LE_RANDOM, val = 0xC00000000004\<rparr>"

definition dev_ids :: "bt_addr_le list \<Rightarrow> nat \<Rightarrow> bt_dev_s" where
  "dev_ids tbl n = dev_boot\<lparr>id_addr := tbl, id_count := n, flags := {BT_DEV_USER_ID_ADDR}\<rparr>"

text \<open>
  The sample device after the name "ab" was set, and an initialised device that
  advertises its name.
\<close>

definition dev_named :: bt_dev_s where
  "dev_named = dev_boot\<lparr>name := ''ab'' @ replicate 6 NUL\<rparr>"

definition dev_adv :: bt_dev_s where
  "dev_adv = dev_ready\<lparr>flags := {BT_DEV_ENABLE, BT_DEV_READY, BT_DEV_ADVERTISING,
                                  BT_DEV_ADVERTISING_NAME},
                       adv_enable := True\<rparr>"

text \<open>The sample device after a synchronous \<open>bt_enable\<close> against \<open>env_ok\<close>.\<close>

definition dev_enabled :: bt_dev_s where
  "dev_enabled = dev_boot\<lparr>flags := {BT_DEV_ENABLE, BT_DEV_READY},
                           name := ''bt'' @ replicate 6 NUL,
                           calls := [DrvOpen, HciInitialize, L2capInit]\<rparr>"

section \<open>What a call leaves alone\<close>

text \<open>
  Two relations between the state before and after a call, used to carry facts across
  calls that do not touch them: the identity table and its count are the same; the
  driver binding is the same and \<open>BT_DEV_ENABLE\<close>, once set, is still set.
\<close>

definition keeps_ids :: "bt_dev_s \<Rightarrow> bt_dev_s \<Rightarrow> bool" where
  "keeps_ids s s' = (id_addr s' = id_addr s \<and> id_count s' = id_count s)"

definition keeps_enable :: "bt_dev_s \<Rightarrow> bt_dev_s \<Rightarrow> bool" where
  "keeps_enable s s' =
     (btdev s' = btdev s \<and> (BT_DEV_ENABLE \<in> flags s \<longrightarrow> BT_DEV_ENABLE \<in> flags s'))"

section \<open>The identity table invariant\<close>

text \<open>
  The count does not exceed the capacity, and among the first \<open>id_count\<close> entries the
  ones that are not the wildcard address are pairwise different.
\<close>

definition id_table_ok :: "bt_dev_s \<Rightarrow> bool" where
  "id_table_ok s =
     (id_count s \<le> length (id_addr s)
      \<and> distinct (filter (\<lambda>a. a \<noteq> BT_ADDR_LE_ANY) (take (id_count s) (id_addr s))))"

section \<open>Properties\<close>

subsection \<open>The encoder on record sets that fit\<close>

lemma length_ad_encoded: "length (ad_encoded ds) = ad_total ds"
  by (induction ds) (simp_all add: ad_encoded_def ad_total_def ad_triple_def)

lemma ad_total_append: "ad_total (xs @ ys) = ad_total xs + ad_total ys"
  by (simp add: ad_total_def)

lemma ad_encoded_append: "ad_encoded (xs @ ys) = ad_encoded xs @ ad_encoded ys"
  by (simp add: ad_encoded_def)

lemma emit_fits:
  assumes "len sd + n + 2 \<le> 31" and "n \<le> length src" and "length (data sd) = 31"
  shows "emit (int n) t src sd =
           Ret \<lparr>len = len sd + n + 2,
                data = take (len sd) (data sd) @ [word_of_nat (n + 1), t] @ take n src
                       @ drop (len sd + n + 2) (data sd)\<rparr>"
proof -
  let ?k = "len sd"
  have k: "?k < 31" "Suc ?k < 31" using assms by simp_all
  have t2: "take (Suc (Suc ?k)) ((data sd)[?k := a, Suc ?k := b]) = take ?k (data sd) @ [a, b]" for a b
    using assms k by (simp add: take_Suc_conv_app_nth)
  show ?thesis
    using assms k
    by (simp add: emit_def put_byte_def copy_bytes_def t2)
qed

lemma ad_entry_fits:
  assumes "unat (data_len d) = length (adata d)"
      and "len sd + length (adata d) + 2 \<le> 31" and "length (data sd) = 31"
  shows "ad_entry d sd =
           Ret (Inr \<lparr>len = len sd + length (adata d) + 2,
                     data = take (len sd) (data sd) @ ad_triple d
                            @ drop (len sd + length (adata d) + 2) (data sd)\<rparr>)"
proof -
  have n: "uint (data_len d) = int (length (adata d))"
    using assms(1) by (simp flip: assms(1))
  show ?thesis
    using assms(2,3) emit_fits [of sd "length (adata d)" "adata d" "dtype d"]
    by (simp add: ad_entry_def n ad_triple_def Let_def)
qed

lemma ad_records_fits:
  assumes "\<forall>d\<in>set ds. unat (data_len d) = length (adata d)"
      and "len sd + ad_total ds \<le> 31" and "length (data sd) = 31"
  shows "ad_records ds sd =
           Ret (Inr \<lparr>len = len sd + ad_total ds,
                     data = take (len sd) (data sd) @ ad_encoded ds
                            @ drop (len sd + ad_total ds) (data sd)\<rparr>)"
  using assms
proof (induction ds arbitrary: sd)
  case Nil
  then show ?case by (simp add: ad_total_def ad_encoded_def)
next
  case (Cons d ds)
  let ?sd' = "\<lparr>len = len sd + length (adata d) + 2,
                data = take (len sd) (data sd) @ ad_triple d
                       @ drop (len sd + length (adata d) + 2) (data sd)\<rparr>"
  have tot: "ad_total (d # ds) = length (adata d) + 2 + ad_total ds"
    by (simp add: ad_total_def)
  have lt: "length (ad_triple d) = length (adata d) + 2"
    by (simp add: ad_triple_def)
  have e: "ad_entry d sd = Ret (Inr ?sd')"
    using Cons.prems by (intro ad_entry_fits) (simp_all add: tot)
  have l': "length (data ?sd') = 31"
    using Cons.prems by (simp add: tot lt)
  have r: "ad_records ds ?sd' =
             Ret (Inr \<lparr>len = len ?sd' + ad_total ds,
                       data = take (len ?sd') (data ?sd') @ ad_encoded ds
                              @ drop (len ?sd' + ad_total ds) (data ?sd')\<rparr>)"
    using Cons.prems l' by (intro Cons.IH) (simp_all add: tot)
  have tk: "take (len ?sd') (data ?sd') = take (len sd) (data sd) @ ad_triple d"
    using Cons.prems by (simp add: tot lt)
  have dr: "drop (len ?sd' + ad_total ds) (data ?sd') = drop (len sd + ad_total (d # ds)) (data sd)"
    using Cons.prems by (simp add: tot lt add.commute add.left_commute)
  show ?case
    unfolding ad_records.simps e using r tk dr
    by (simp add: tot ad_encoded_def add.assoc)
qed

lemma ad_sets_fits:
  assumes "\<forall>d\<in>set (concat ad). unat (data_len d) = length (adata d)"
      and "len sd + ad_total (concat ad) \<le> 31" and "length (data sd) = 31"
  shows "ad_sets ad sd =
           Ret (Inr \<lparr>len = len sd + ad_total (concat ad),
                     data = take (len sd) (data sd) @ ad_encoded (concat ad)
                            @ drop (len sd + ad_total (concat ad)) (data sd)\<rparr>)"
  using assms
proof (induction ad arbitrary: sd)
  case Nil
  then show ?case by (simp add: ad_total_def ad_encoded_def)
next
  case (Cons a ad)
  let ?sd' = "\<lparr>len = len sd + ad_total a,
                data = take (len sd) (data sd) @ ad_encoded a
                       @ drop (len sd + ad_total a) (data sd)\<rparr>"
  note tot = ad_total_append
  note enc = ad_encoded_append
  have e: "ad_records a sd = Ret (Inr ?sd')"
    using Cons.prems by (intro ad_records_fits) (simp_all add: tot)
  have l': "length (data ?sd') = 31"
    using Cons.prems by (simp add: tot length_ad_encoded)
  have r: "ad_sets ad ?sd' =
             Ret (Inr \<lparr>len = len ?sd' + ad_total (concat ad),
                       data = take (len ?sd') (data ?sd') @ ad_encoded (concat ad)
                              @ drop (len ?sd' + ad_total (concat ad)) (data ?sd')\<rparr>)"
    using Cons.prems l' by (intro Cons.IH) (simp_all add: tot)
  have tk: "take (len ?sd') (data ?sd') = take (len sd) (data sd) @ ad_encoded a"
    using Cons.prems by (simp add: tot length_ad_encoded)
  have dr: "drop (len ?sd' + ad_total (concat ad)) (data ?sd')
              = drop (len sd + ad_total (concat (a # ad))) (data sd)"
    using Cons.prems by (simp add: tot length_ad_encoded add.commute add.left_commute)
  show ?case
    unfolding ad_sets.simps e using r tk dr
    by (simp add: tot enc add.assoc)
qed

text \<open>
  C1. For every record set whose cumulative encoded length is at most 31 bytes (each
  record's \<open>data_len\<close> being the length of its payload), the encoding loop of \<open>set_ad\<close>
  ends without rejecting anything: the length field is the cumulative length and the 31
  data bytes are the concatenation of the triples [payload length + 1, type, payload] in
  input order, followed by the zeros of the initial \<open>memset\<close>. When the transport hands
  out a command buffer, \<open>set_ad\<close> submits exactly these bytes once and returns the
  transport's status.
\<close>

theorem set_ad_fits:
  assumes "\<forall>d\<in>set (concat ad). unat (data_len d) = length (adata d)"
      and "ad_total (concat ad) \<le> 31"
      and "hci_cmd_create E (calls s @ [HciCmdCreate op 32])"
  shows "ad_sets ad set_data_zero =
           Ret (Inr \<lparr>len = ad_total (concat ad),
                     data = ad_encoded (concat ad)
                            @ replicate (31 - ad_total (concat ad)) 0\<rparr>)
         \<and> set_ad E op ad s =
           Ret (Val (hci_cmd_send_sync E
                       (calls s @ [HciCmdCreate op 32,
                                   HciCmdSendSync op
                                     (word_of_nat (ad_total (concat ad))
                                      # ad_encoded (concat ad)
                                      @ replicate (31 - ad_total (concat ad)) 0)])),
                s\<lparr>calls := calls s @ [HciCmdCreate op 32,
                                      HciCmdSendSync op
                                        (word_of_nat (ad_total (concat ad))
                                         # ad_encoded (concat ad)
                                         @ replicate (31 - ad_total (concat ad)) 0)]\<rparr>)"
proof -
  have e: "ad_sets ad set_data_zero =
           Ret (Inr \<lparr>len = ad_total (concat ad),
                     data = ad_encoded (concat ad)
                            @ replicate (31 - ad_total (concat ad)) 0\<rparr>)"
    using ad_sets_fits [of ad set_data_zero] assms(1,2)
    by (simp add: set_data_zero_def)
  show ?thesis
    using assms(3) by (simp add: e set_ad_def call_def set_data_bytes_def Let_def)
qed

theorem set_ad_fits_witness:
  "set_ad env_ok BT_HCI_OP_LE_SET_ADV_DATA
     [[\<lparr>dtype = 0x01, data_len = 1, adata = [0x06]\<rparr>],
      [\<lparr>dtype = 0x09, data_len = 2, adata = [0x41, 0x42]\<rparr>]] dev_boot
   = Ret (Val 0,
          dev_boot\<lparr>calls :=
            [HciCmdCreate BT_HCI_OP_LE_SET_ADV_DATA 32,
             HciCmdSendSync BT_HCI_OP_LE_SET_ADV_DATA
               ([7, 2, 0x01, 0x06, 3, 0x09, 0x41, 0x42] @ replicate 24 0)]\<rparr>)"
  using set_ad_fits [of "[[\<lparr>dtype = 0x01, data_len = 1, adata = [0x06]\<rparr>],
      [\<lparr>dtype = 0x09, data_len = 2, adata = [0x41, 0x42]\<rparr>]]" env_ok dev_boot
      BT_HCI_OP_LE_SET_ADV_DATA]
  by (simp add: ad_total_def ad_encoded_def ad_triple_def env_ok_def dev_boot_def)

subsection \<open>The encoder on a record that does not fit\<close>













text \<open>
  With 30 or 31 bytes already written the computed length \<open>31 - (len + 2)\<close> is -1 or
  -2. The source tests \<open>!len\<close>, which only catches 0, and goes on to write the type
  byte at index 31 or beyond. The one call of \<open>set_ad\<close> in the file, in \<open>bt_set_name\<close>,
  passes a single record, so it starts every record from an empty payload and never
  comes here.
\<close>

lemma ad_entry_name_no_room:
  assumes "dtype d = BT_DATA_NAME_COMPLETE" and "len sd = 30 \<or> len sd = 31"
  shows "ad_entry d sd = Fault"
  using assms
  by (auto simp add: ad_entry_def Let_def emit_def put_byte_def)


subsection \<open>Scan parameters\<close>

text \<open>
  C4. \<open>valid_le_scan_param\<close> accepts exactly the parameters with a passive or active
  scan type, a disabled or enabled duplicate filter, interval and window both within
  [0x0004, 0x4000] and window at most interval; with READY set, \<open>bt_le_scan_start\<close>
  answers every other parameter set with \<open>-EINVAL\<close> and leaves the whole state as it
  was: no flag changed, no command created or sent.
\<close>

theorem scan_param_validation:
  "(valid_le_scan_param p \<longleftrightarrow>
      (stype p = BT_LE_SCAN_PASSIVE \<or> stype p = BT_LE_SCAN_ACTIVE)
      \<and> (filter_dup p = BT_LE_SCAN_FILTER_DUP_DISABLE \<or> filter_dup p = BT_LE_SCAN_FILTER_DUP_ENABLE)
      \<and> 0x0004 \<le> interval p \<and> interval p \<le> 0x4000
      \<and> 0x0004 \<le> window p \<and> window p \<le> 0x4000
      \<and> window p \<le> interval p)
   \<and> (BT_DEV_READY \<in> flags s \<and> \<not> valid_le_scan_param p
        \<longrightarrow> bt_le_scan_start E p cb s = (Neg EINVAL, s))"
  by (auto simp add: valid_le_scan_param_def bt_le_scan_start_def bt_atomic_testbit_def not_less)

theorem scan_param_validation_witness:
  "\<not> valid_le_scan_param \<lparr>stype = BT_LE_SCAN_ACTIVE, filter_dup = BT_LE_SCAN_FILTER_DUP_ENABLE,
                            interval = 0x4000, window = 0x5000\<rparr>
   \<and> BT_DEV_READY \<in> flags dev_ready
   \<and> bt_le_scan_start env_ok
        \<lparr>stype = BT_LE_SCAN_ACTIVE, filter_dup = BT_LE_SCAN_FILTER_DUP_ENABLE,
         interval = 0x4000, window = 0x5000\<rparr> (Some 1) dev_ready
       = (Neg EINVAL, dev_ready)"
  using scan_param_validation [of "\<lparr>stype = BT_LE_SCAN_ACTIVE,
          filter_dup = BT_LE_SCAN_FILTER_DUP_ENABLE, interval = 0x4000, window = 0x5000\<rparr>"
        dev_ready env_ok "Some 1"]
  by (simp add: dev_ready_def dev_boot_def)

subsection \<open>The explicit scan guard\<close>

lemma set_le_scan_enable_unfold:
  "set_le_scan_enable E en s =
     (let cI = HciCmdCreate BT_HCI_OP_LE_SET_SCAN_ENABLE 2;
          cC = HciCmdSendSync BT_HCI_OP_LE_SET_SCAN_ENABLE
                 [en, if en = BT_LE_SCAN_ENABLE
                      then (if BT_DEV_SCAN_FILTER_DUP \<in> flags s then 1 else 0)
                      else BT_LE_SCAN_FILTER_DUP_DISABLE]
      in if \<not> hci_cmd_create E (calls s @ [cI]) then (Neg ENOBUFS, s\<lparr>calls := calls s @ [cI]\<rparr>)
         else if hci_cmd_send_sync E (calls s @ [cI, cC]) \<noteq> 0
         then (Val (hci_cmd_send_sync E (calls s @ [cI, cC])), s\<lparr>calls := calls s @ [cI, cC]\<rparr>)
         else (Val 0, s\<lparr>calls := calls s @ [cI, cC],
                        flags := (if en \<noteq> 0 then insert BT_DEV_SCANNING (flags s)
                                  else flags s - {BT_DEV_SCANNING})\<rparr>))"
  by (simp add: set_le_scan_enable_def call_def Let_def bt_atomic_testbit_def
      bt_atomic_setbit_def bt_atomic_clrbit_def)

lemma start_le_scan_unfold:
  "start_le_scan E t i w s =
     (let cP = HciCmdCreate BT_HCI_OP_LE_SET_SCAN_PARAMS 7;
          cS = HciCmdSend BT_HCI_OP_LE_SET_SCAN_PARAMS (t # le16 i @ le16 w @ [0x00, 0x00]);
          cI = HciCmdCreate BT_HCI_OP_LE_SET_SCAN_ENABLE 2;
          cE = HciCmdSendSync BT_HCI_OP_LE_SET_SCAN_ENABLE
                 [BT_LE_SCAN_ENABLE, if BT_DEV_SCAN_FILTER_DUP \<in> flags s then 1 else 0];
          act = (\<lambda>F. if t = BT_LE_SCAN_ACTIVE then insert BT_DEV_ACTIVE_SCAN F
                      else F - {BT_DEV_ACTIVE_SCAN})
      in if \<not> hci_cmd_create E (calls s @ [cP]) then (Neg ENOBUFS, s\<lparr>calls := calls s @ [cP]\<rparr>)
         else if \<not> hci_cmd_create E (calls s @ [cP, cS, cI])
         then (Neg ENOBUFS, s\<lparr>calls := calls s @ [cP, cS, cI]\<rparr>)
         else if hci_cmd_send_sync E (calls s @ [cP, cS, cI, cE]) \<noteq> 0
         then (Val (hci_cmd_send_sync E (calls s @ [cP, cS, cI, cE])),
               s\<lparr>calls := calls s @ [cP, cS, cI, cE]\<rparr>)
         else (Val 0, s\<lparr>calls := calls s @ [cP, cS, cI, cE],
                        flags := act (insert BT_DEV_SCANNING (flags s))\<rparr>))"
  by (simp add: start_le_scan_def set_le_scan_enable_unfold call_def Let_def is_err_def
      bt_atomic_setbit_def bt_atomic_clrbit_def BT_LE_SCAN_ENABLE_def)

text \<open>
  C5. With READY set and valid parameters, \<open>bt_le_scan_start\<close> tests and sets
  \<open>BT_DEV_EXPLICIT_SCAN\<close>: when the flag was set it returns \<open>-EALREADY\<close> and changes
  nothing, so a second explicit scan cannot start. When the flag was clear, the result is
  given case by case from the answers of the transport. If a scan is running, the scan
  disable command is issued first; when no buffer is given for it, or the transport
  answers it with a non-zero status, that error is returned, nothing else is issued and
  \<open>BT_DEV_EXPLICIT_SCAN\<close> is clear in the state returned. Otherwise the scan parameters
  and the scan enable command are issued; when a buffer is refused or the enable command
  is answered with a non-zero status, that error is returned and \<open>BT_DEV_EXPLICIT_SCAN\<close>
  is clear in the state returned. Only when the enable command is answered with zero is
  \<open>BT_DEV_EXPLICIT_SCAN\<close> set on return, together with \<open>BT_DEV_SCANNING\<close> and the callback.
\<close>

theorem scan_start_guard:
  assumes "BT_DEV_READY \<in> flags s" and "valid_le_scan_param p"
  shows
    "let cI = HciCmdCreate BT_HCI_OP_LE_SET_SCAN_ENABLE 2;
         cD = HciCmdSendSync BT_HCI_OP_LE_SET_SCAN_ENABLE
                [BT_LE_SCAN_DISABLE, BT_LE_SCAN_FILTER_DUP_DISABLE];
         cP = HciCmdCreate BT_HCI_OP_LE_SET_SCAN_PARAMS 7;
         cS = HciCmdSend BT_HCI_OP_LE_SET_SCAN_PARAMS
                (stype p # le16 (interval p) @ le16 (window p) @ [0x00, 0x00]);
         cE = HciCmdSendSync BT_HCI_OP_LE_SET_SCAN_ENABLE
                [BT_LE_SCAN_ENABLE, if filter_dup p \<noteq> 0 then 1 else 0];
         h0 = (if BT_DEV_SCANNING \<in> flags s then calls s @ [cI, cD] else calls s);
         stopped = (BT_DEV_SCANNING \<notin> flags s
                    \<or> hci_cmd_create E (calls s @ [cI])
                      \<and> hci_cmd_send_sync E (calls s @ [cI, cD]) = 0);
         fl = (if filter_dup p \<noteq> 0
               then insert BT_DEV_SCAN_FILTER_DUP (flags s - {BT_DEV_SCANNING})
               else flags s - {BT_DEV_SCANNING} - {BT_DEV_SCAN_FILTER_DUP});
         act = (\<lambda>F. if stype p = BT_LE_SCAN_ACTIVE then insert BT_DEV_ACTIVE_SCAN F
                     else F - {BT_DEV_ACTIVE_SCAN})
     in (BT_DEV_EXPLICIT_SCAN \<in> flags s
           \<longrightarrow> bt_le_scan_start E p cb s = (Neg EALREADY, s))
      \<and> (BT_DEV_EXPLICIT_SCAN \<notin> flags s \<longrightarrow>
           BT_DEV_EXPLICIT_SCAN \<notin> fl
         \<and> (BT_DEV_SCANNING \<in> flags s \<and> \<not> hci_cmd_create E (calls s @ [cI])
              \<longrightarrow> bt_le_scan_start E p cb s = (Neg ENOBUFS, s\<lparr>calls := calls s @ [cI]\<rparr>))
         \<and> (BT_DEV_SCANNING \<in> flags s \<and> hci_cmd_create E (calls s @ [cI])
                \<and> hci_cmd_send_sync E (calls s @ [cI, cD]) \<noteq> 0
              \<longrightarrow> bt_le_scan_start E p cb s
                  = (Val (hci_cmd_send_sync E (calls s @ [cI, cD])),
                     s\<lparr>calls := calls s @ [cI, cD]\<rparr>))
         \<and> (stopped \<and> \<not> hci_cmd_create E (h0 @ [cP])
              \<longrightarrow> bt_le_scan_start E p cb s
                  = (Neg ENOBUFS, s\<lparr>calls := h0 @ [cP], flags := fl\<rparr>))
         \<and> (stopped \<and> hci_cmd_create E (h0 @ [cP])
                \<and> \<not> hci_cmd_create E (h0 @ [cP, cS, cI])
              \<longrightarrow> bt_le_scan_start E p cb s
                  = (Neg ENOBUFS, s\<lparr>calls := h0 @ [cP, cS, cI], flags := fl\<rparr>))
         \<and> (stopped \<and> hci_cmd_create E (h0 @ [cP])
                \<and> hci_cmd_create E (h0 @ [cP, cS, cI])
                \<and> hci_cmd_send_sync E (h0 @ [cP, cS, cI, cE]) \<noteq> 0
              \<longrightarrow> bt_le_scan_start E p cb s
                  = (Val (hci_cmd_send_sync E (h0 @ [cP, cS, cI, cE])),
                     s\<lparr>calls := h0 @ [cP, cS, cI, cE], flags := fl\<rparr>))
         \<and> (stopped \<and> hci_cmd_create E (h0 @ [cP])
                \<and> hci_cmd_create E (h0 @ [cP, cS, cI])
                \<and> hci_cmd_send_sync E (h0 @ [cP, cS, cI, cE]) = 0
              \<longrightarrow> bt_le_scan_start E p cb s
                  = (Val 0,
                     s\<lparr>calls := h0 @ [cP, cS, cI, cE],
                       flags := insert BT_DEV_EXPLICIT_SCAN (act (insert BT_DEV_SCANNING fl)),
                       scan_dev_found_cb := cb\<rparr>)))"
proof -
  define cI where "cI = HciCmdCreate BT_HCI_OP_LE_SET_SCAN_ENABLE 2"
  define cD where "cD = HciCmdSendSync BT_HCI_OP_LE_SET_SCAN_ENABLE
                [BT_LE_SCAN_DISABLE, BT_LE_SCAN_FILTER_DUP_DISABLE]"
  define cP where "cP = HciCmdCreate BT_HCI_OP_LE_SET_SCAN_PARAMS 7"
  define cS where "cS = HciCmdSend BT_HCI_OP_LE_SET_SCAN_PARAMS
                (stype p # le16 (interval p) @ le16 (window p) @ [0x00, 0x00])"
  define cE where "cE = HciCmdSendSync BT_HCI_OP_LE_SET_SCAN_ENABLE
                [BT_LE_SCAN_ENABLE, if filter_dup p \<noteq> 0 then 1 else 0]"
  define h0 where "h0 = (if BT_DEV_SCANNING \<in> flags s then calls s @ [cI, cD] else calls s)"
  define stopped where "stopped \<longleftrightarrow> (BT_DEV_SCANNING \<notin> flags s
                    \<or> hci_cmd_create E (calls s @ [cI])
                      \<and> hci_cmd_send_sync E (calls s @ [cI, cD]) = 0)"
  define fl where "fl = (if filter_dup p \<noteq> 0
               then insert BT_DEV_SCAN_FILTER_DUP (flags s - {BT_DEV_SCANNING})
               else flags s - {BT_DEV_SCANNING} - {BT_DEV_SCAN_FILTER_DUP})"
  define act where "act = (\<lambda>F. if stype p = BT_LE_SCAN_ACTIVE then insert BT_DEV_ACTIVE_SCAN F
                     else F - {BT_DEV_ACTIVE_SCAN})"
  define s1 where "s1 = s\<lparr>flags := insert BT_DEV_EXPLICIT_SCAN (flags s)\<rparr>"
  have busy: "bt_le_scan_start E p cb s = (Neg EALREADY, s)" if "BT_DEV_EXPLICIT_SCAN \<in> flags s"
  proof -
    have "s\<lparr>flags := insert BT_DEV_EXPLICIT_SCAN (flags s)\<rparr> = s"
      using that by (simp add: insert_absorb)
    then show ?thesis
      using assms that
      by (simp add: bt_le_scan_start_def bt_atomic_testbit_def bt_atomic_testsetbit_def
          bt_atomic_setbit_def)
  qed
  have start: "bt_le_scan_start E p cb s =
          (let (err, s2) = scan_stop_running E s1 in
            if is_err err then (err, bt_atomic_clrbit BT_DEV_EXPLICIT_SCAN s2)
            else
              (let s3 = (if filter_dup p \<noteq> 0
                         then bt_atomic_setbit BT_DEV_SCAN_FILTER_DUP s2
                         else bt_atomic_clrbit BT_DEV_SCAN_FILTER_DUP s2);
                   (err', s4) = start_le_scan E (stype p) (interval p) (window p) s3
               in if is_err err' then (err', bt_atomic_clrbit BT_DEV_EXPLICIT_SCAN s4)
                  else (Val 0, s4\<lparr>scan_dev_found_cb := cb\<rparr>)))"
    if "BT_DEV_EXPLICIT_SCAN \<notin> flags s"
    using assms that
    by (simp add: bt_le_scan_start_def bt_atomic_testbit_def bt_atomic_testsetbit_def
        bt_atomic_setbit_def s1_def)
  have stop_nobuf: "scan_stop_running E s1 = (Neg ENOBUFS, s1\<lparr>calls := calls s @ [cI]\<rparr>)"
    if "BT_DEV_SCANNING \<in> flags s" "\<not> hci_cmd_create E (calls s @ [cI])"
    using that
    by (simp add: scan_stop_running_def bt_atomic_testbit_def set_le_scan_enable_unfold Let_def
        s1_def cI_def)
  have stop_err: "scan_stop_running E s1
                    = (Val (hci_cmd_send_sync E (calls s @ [cI, cD])),
                       s1\<lparr>calls := calls s @ [cI, cD]\<rparr>)"
    if "BT_DEV_SCANNING \<in> flags s" "hci_cmd_create E (calls s @ [cI])"
       "hci_cmd_send_sync E (calls s @ [cI, cD]) \<noteq> 0"
    using that
    by (simp add: scan_stop_running_def bt_atomic_testbit_def set_le_scan_enable_unfold Let_def
        s1_def cI_def cD_def BT_LE_SCAN_DISABLE_def BT_LE_SCAN_ENABLE_def)
  have stop_ok: "scan_stop_running E s1
                   = (Val 0, s1\<lparr>calls := h0, flags := flags s1 - {BT_DEV_SCANNING}\<rparr>)"
    if stopped
  proof (cases "BT_DEV_SCANNING \<in> flags s")
    case True
    then show ?thesis
      using that
      by (simp add: scan_stop_running_def bt_atomic_testbit_def set_le_scan_enable_unfold Let_def
          s1_def cI_def cD_def h0_def stopped_def BT_LE_SCAN_DISABLE_def BT_LE_SCAN_ENABLE_def)
  next
    case False
    then have "flags s1 - {BT_DEV_SCANNING} = flags s1"
      by (auto simp add: s1_def)
    then show ?thesis
      using False by (simp add: scan_stop_running_def bt_atomic_testbit_def s1_def h0_def)
  qed
  define s3 where "s3 = s\<lparr>calls := h0, flags := insert BT_DEV_EXPLICIT_SCAN fl\<rparr>"
  have to_start: "bt_le_scan_start E p cb s =
          (let (err', s4) = start_le_scan E (stype p) (interval p) (window p) s3
           in if is_err err' then (err', bt_atomic_clrbit BT_DEV_EXPLICIT_SCAN s4)
              else (Val 0, s4\<lparr>scan_dev_found_cb := cb\<rparr>))"
    if "BT_DEV_EXPLICIT_SCAN \<notin> flags s" stopped
  proof -
    have "(if filter_dup p \<noteq> 0
           then bt_atomic_setbit BT_DEV_SCAN_FILTER_DUP
                  (s1\<lparr>calls := h0, flags := flags s1 - {BT_DEV_SCANNING}\<rparr>)
           else bt_atomic_clrbit BT_DEV_SCAN_FILTER_DUP
                  (s1\<lparr>calls := h0, flags := flags s1 - {BT_DEV_SCANNING}\<rparr>)) = s3"
      using that(1)
      by (auto simp add: s3_def s1_def fl_def bt_atomic_setbit_def bt_atomic_clrbit_def
          intro!: arg_cong [where f = "\<lambda>F. s\<lparr>calls := h0, flags := F\<rparr>"])
    then show ?thesis
      unfolding start [OF that(1)] stop_ok [OF that(2)] by (simp add: is_err_def Let_def)
  qed
  have dup: "(if BT_DEV_SCAN_FILTER_DUP \<in> flags s3 then 1 else 0)
             = (if filter_dup p \<noteq> 0 then 1 else (0 :: u8))"
    by (simp add: s3_def fl_def)
  have st: "start_le_scan E (stype p) (interval p) (window p) s3 =
     (if \<not> hci_cmd_create E (h0 @ [cP]) then (Neg ENOBUFS, s3\<lparr>calls := h0 @ [cP]\<rparr>)
      else if \<not> hci_cmd_create E (h0 @ [cP, cS, cI])
      then (Neg ENOBUFS, s3\<lparr>calls := h0 @ [cP, cS, cI]\<rparr>)
      else if hci_cmd_send_sync E (h0 @ [cP, cS, cI, cE]) \<noteq> 0
      then (Val (hci_cmd_send_sync E (h0 @ [cP, cS, cI, cE])),
            s3\<lparr>calls := h0 @ [cP, cS, cI, cE]\<rparr>)
      else (Val 0, s3\<lparr>calls := h0 @ [cP, cS, cI, cE],
                      flags := act (insert BT_DEV_SCANNING (flags s3))\<rparr>))"
    unfolding start_le_scan_unfold Let_def dup
    unfolding cP_def [symmetric] cS_def [symmetric] cI_def [symmetric] cE_def [symmetric]
    by (simp add: s3_def act_def)
  have nx: "BT_DEV_EXPLICIT_SCAN \<notin> fl" if "BT_DEV_EXPLICIT_SCAN \<notin> flags s"
    using that by (simp add: fl_def)
  have rb: "insert BT_DEV_EXPLICIT_SCAN fl - {BT_DEV_EXPLICIT_SCAN} = fl"
    if "BT_DEV_EXPLICIT_SCAN \<notin> flags s"
    using nx [OF that] by auto
  have c0: "BT_DEV_EXPLICIT_SCAN \<in> flags s
           \<longrightarrow> bt_le_scan_start E p cb s = (Neg EALREADY, s)"
    using busy by blast
  have c1: "BT_DEV_SCANNING \<in> flags s \<and> \<not> hci_cmd_create E (calls s @ [cI])
              \<longrightarrow> bt_le_scan_start E p cb s = (Neg ENOBUFS, s\<lparr>calls := calls s @ [cI]\<rparr>)"
    if x: "BT_DEV_EXPLICIT_SCAN \<notin> flags s"
  proof
    assume h: "BT_DEV_SCANNING \<in> flags s \<and> \<not> hci_cmd_create E (calls s @ [cI])"
    have "insert BT_DEV_EXPLICIT_SCAN (flags s) - {BT_DEV_EXPLICIT_SCAN} = flags s"
      using x by auto
    moreover have "bt_le_scan_start E p cb s
                     = (Neg ENOBUFS,
                        bt_atomic_clrbit BT_DEV_EXPLICIT_SCAN (s1\<lparr>calls := calls s @ [cI]\<rparr>))"
      unfolding start [OF x] stop_nobuf [OF conjunct1 [OF h] conjunct2 [OF h]]
      by (simp add: is_err_def)
    ultimately show "bt_le_scan_start E p cb s = (Neg ENOBUFS, s\<lparr>calls := calls s @ [cI]\<rparr>)"
      by (simp add: bt_atomic_clrbit_def s1_def)
  qed
  have c2: "BT_DEV_SCANNING \<in> flags s \<and> hci_cmd_create E (calls s @ [cI])
                \<and> hci_cmd_send_sync E (calls s @ [cI, cD]) \<noteq> 0
              \<longrightarrow> bt_le_scan_start E p cb s
                  = (Val (hci_cmd_send_sync E (calls s @ [cI, cD])),
                     s\<lparr>calls := calls s @ [cI, cD]\<rparr>)"
    if x: "BT_DEV_EXPLICIT_SCAN \<notin> flags s"
  proof
    assume h: "BT_DEV_SCANNING \<in> flags s \<and> hci_cmd_create E (calls s @ [cI])
                \<and> hci_cmd_send_sync E (calls s @ [cI, cD]) \<noteq> 0"
    have "insert BT_DEV_EXPLICIT_SCAN (flags s) - {BT_DEV_EXPLICIT_SCAN} = flags s"
      using x by auto
    moreover have "bt_le_scan_start E p cb s
                     = (Val (hci_cmd_send_sync E (calls s @ [cI, cD])),
                        bt_atomic_clrbit BT_DEV_EXPLICIT_SCAN
                          (s1\<lparr>calls := calls s @ [cI, cD]\<rparr>))"
      using h unfolding start [OF x]
      by (subst stop_err) (simp_all add: is_err_def)
    ultimately show "bt_le_scan_start E p cb s
                  = (Val (hci_cmd_send_sync E (calls s @ [cI, cD])),
                     s\<lparr>calls := calls s @ [cI, cD]\<rparr>)"
      by (simp add: bt_atomic_clrbit_def s1_def)
  qed
  have c3: "stopped \<and> \<not> hci_cmd_create E (h0 @ [cP])
              \<longrightarrow> bt_le_scan_start E p cb s
                  = (Neg ENOBUFS, s\<lparr>calls := h0 @ [cP], flags := fl\<rparr>)"
    if x: "BT_DEV_EXPLICIT_SCAN \<notin> flags s"
  proof
    assume h: "stopped \<and> \<not> hci_cmd_create E (h0 @ [cP])"
    then show "bt_le_scan_start E p cb s
                  = (Neg ENOBUFS, s\<lparr>calls := h0 @ [cP], flags := fl\<rparr>)"
      unfolding to_start [OF x conjunct1 [OF h]] st
      by (simp add: s3_def is_err_def bt_atomic_clrbit_def rb [OF x])
  qed
  have c4: "stopped \<and> hci_cmd_create E (h0 @ [cP])
                \<and> \<not> hci_cmd_create E (h0 @ [cP, cS, cI])
              \<longrightarrow> bt_le_scan_start E p cb s
                  = (Neg ENOBUFS, s\<lparr>calls := h0 @ [cP, cS, cI], flags := fl\<rparr>)"
    if x: "BT_DEV_EXPLICIT_SCAN \<notin> flags s"
  proof
    assume h: "stopped \<and> hci_cmd_create E (h0 @ [cP])
                \<and> \<not> hci_cmd_create E (h0 @ [cP, cS, cI])"
    then show "bt_le_scan_start E p cb s
                  = (Neg ENOBUFS, s\<lparr>calls := h0 @ [cP, cS, cI], flags := fl\<rparr>)"
      unfolding to_start [OF x conjunct1 [OF h]] st
      by (simp add: s3_def is_err_def bt_atomic_clrbit_def rb [OF x])
  qed
  have c5: "stopped \<and> hci_cmd_create E (h0 @ [cP])
                \<and> hci_cmd_create E (h0 @ [cP, cS, cI])
                \<and> hci_cmd_send_sync E (h0 @ [cP, cS, cI, cE]) \<noteq> 0
              \<longrightarrow> bt_le_scan_start E p cb s
                  = (Val (hci_cmd_send_sync E (h0 @ [cP, cS, cI, cE])),
                     s\<lparr>calls := h0 @ [cP, cS, cI, cE], flags := fl\<rparr>)"
    if x: "BT_DEV_EXPLICIT_SCAN \<notin> flags s"
  proof
    assume h: "stopped \<and> hci_cmd_create E (h0 @ [cP])
                \<and> hci_cmd_create E (h0 @ [cP, cS, cI])
                \<and> hci_cmd_send_sync E (h0 @ [cP, cS, cI, cE]) \<noteq> 0"
    then show "bt_le_scan_start E p cb s
                  = (Val (hci_cmd_send_sync E (h0 @ [cP, cS, cI, cE])),
                     s\<lparr>calls := h0 @ [cP, cS, cI, cE], flags := fl\<rparr>)"
      unfolding to_start [OF x conjunct1 [OF h]] st
      by (simp add: s3_def is_err_def bt_atomic_clrbit_def rb [OF x])
  qed
  have c6: "stopped \<and> hci_cmd_create E (h0 @ [cP])
                \<and> hci_cmd_create E (h0 @ [cP, cS, cI])
                \<and> hci_cmd_send_sync E (h0 @ [cP, cS, cI, cE]) = 0
              \<longrightarrow> bt_le_scan_start E p cb s
                  = (Val 0,
                     s\<lparr>calls := h0 @ [cP, cS, cI, cE],
                       flags := insert BT_DEV_EXPLICIT_SCAN (act (insert BT_DEV_SCANNING fl)),
                       scan_dev_found_cb := cb\<rparr>)"
    if x: "BT_DEV_EXPLICIT_SCAN \<notin> flags s"
  proof
    assume h: "stopped \<and> hci_cmd_create E (h0 @ [cP])
                \<and> hci_cmd_create E (h0 @ [cP, cS, cI])
                \<and> hci_cmd_send_sync E (h0 @ [cP, cS, cI, cE]) = 0"
    have fe: "act (insert BT_DEV_SCANNING (insert BT_DEV_EXPLICIT_SCAN fl))
              = insert BT_DEV_EXPLICIT_SCAN (act (insert BT_DEV_SCANNING fl))"
      by (auto simp add: act_def)
    from h show "bt_le_scan_start E p cb s
                  = (Val 0,
                     s\<lparr>calls := h0 @ [cP, cS, cI, cE],
                       flags := insert BT_DEV_EXPLICIT_SCAN (act (insert BT_DEV_SCANNING fl)),
                       scan_dev_found_cb := cb\<rparr>)"
      unfolding to_start [OF x conjunct1 [OF h]] st
      by (simp add: s3_def is_err_def fe)
  qed
  show ?thesis
    unfolding Let_def cI_def [symmetric] cD_def [symmetric] cP_def [symmetric]
      cS_def [symmetric] cE_def [symmetric]
    unfolding h0_def [symmetric] stopped_def [symmetric] fl_def [symmetric]
    using c0 nx c1 c2 c3 c4 c5 c6 [unfolded act_def] by blast
qed


theorem scan_start_guard_witness:
  "bt_le_scan_start env_ok
     \<lparr>stype = BT_LE_SCAN_ACTIVE, filter_dup = BT_LE_SCAN_FILTER_DUP_ENABLE,
      interval = 0x0010, window = 0x0010\<rparr> (Some 1)
     (dev_ready\<lparr>flags := {BT_DEV_ENABLE, BT_DEV_READY, BT_DEV_EXPLICIT_SCAN}\<rparr>)
   = (Neg EALREADY, dev_ready\<lparr>flags := {BT_DEV_ENABLE, BT_DEV_READY, BT_DEV_EXPLICIT_SCAN}\<rparr>)
   \<and> bt_le_scan_start env_sync_fails
     \<lparr>stype = BT_LE_SCAN_ACTIVE, filter_dup = BT_LE_SCAN_FILTER_DUP_ENABLE,
      interval = 0x0010, window = 0x0010\<rparr> (Some 1) dev_scanning
   = (Val (- 5),
      dev_scanning\<lparr>calls := [HciCmdCreate BT_HCI_OP_LE_SET_SCAN_ENABLE 2,
                              HciCmdSendSync BT_HCI_OP_LE_SET_SCAN_ENABLE [0, 0]]\<rparr>)
   \<and> BT_DEV_EXPLICIT_SCAN \<notin> flags dev_scanning
   \<and> bt_le_scan_start env_sync_fails
     \<lparr>stype = BT_LE_SCAN_ACTIVE, filter_dup = BT_LE_SCAN_FILTER_DUP_ENABLE,
      interval = 0x0010, window = 0x0010\<rparr> (Some 1) dev_ready
   = (Val (- 5),
      dev_ready\<lparr>flags := {BT_DEV_ENABLE, BT_DEV_READY, BT_DEV_SCAN_FILTER_DUP},
                calls := [HciCmdCreate BT_HCI_OP_LE_SET_SCAN_PARAMS 7,
                          HciCmdSend BT_HCI_OP_LE_SET_SCAN_PARAMS
                            [0x01, 0x10, 0x00, 0x10, 0x00, 0x00, 0x00],
                          HciCmdCreate BT_HCI_OP_LE_SET_SCAN_ENABLE 2,
                          HciCmdSendSync BT_HCI_OP_LE_SET_SCAN_ENABLE [1, 1]]\<rparr>)
   \<and> bt_le_scan_start env_ok
     \<lparr>stype = BT_LE_SCAN_ACTIVE, filter_dup = BT_LE_SCAN_FILTER_DUP_ENABLE,
      interval = 0x0010, window = 0x0010\<rparr> (Some 1) dev_scanning
   = (Val 0,
      dev_scanning\<lparr>flags := {BT_DEV_ENABLE, BT_DEV_READY, BT_DEV_SCANNING,
                               BT_DEV_EXPLICIT_SCAN, BT_DEV_ACTIVE_SCAN, BT_DEV_SCAN_FILTER_DUP},
                    scan_dev_found_cb := Some 1,
                    calls := [HciCmdCreate BT_HCI_OP_LE_SET_SCAN_ENABLE 2,
                              HciCmdSendSync BT_HCI_OP_LE_SET_SCAN_ENABLE [0, 0],
                              HciCmdCreate BT_HCI_OP_LE_SET_SCAN_PARAMS 7,
                              HciCmdSend BT_HCI_OP_LE_SET_SCAN_PARAMS
                                [0x01, 0x10, 0x00, 0x10, 0x00, 0x00, 0x00],
                              HciCmdCreate BT_HCI_OP_LE_SET_SCAN_ENABLE 2,
                              HciCmdSendSync BT_HCI_OP_LE_SET_SCAN_ENABLE [1, 1]]\<rparr>)"
proof -
  let ?p = "\<lparr>stype = BT_LE_SCAN_ACTIVE, filter_dup = BT_LE_SCAN_FILTER_DUP_ENABLE,
      interval = 0x0010, window = 0x0010\<rparr>"
  let ?busy = "dev_ready\<lparr>flags := {BT_DEV_ENABLE, BT_DEV_READY, BT_DEV_EXPLICIT_SCAN}\<rparr>"
  have v: "valid_le_scan_param ?p"
    by (simp add: valid_le_scan_param_def)
  have r: "BT_DEV_READY \<in> flags dev_ready" "BT_DEV_READY \<in> flags ?busy"
    "BT_DEV_READY \<in> flags dev_scanning"
    by (simp_all add: dev_ready_def dev_scanning_def)
  have a: "bt_le_scan_start env_ok ?p (Some 1) ?busy = (Neg EALREADY, ?busy)"
    using scan_start_guard [OF r(2) v, of env_ok "Some 1"]
    by (simp add: Let_def dev_ready_def)
  have le: "le16 (0x0010 :: u16) = [0x10, 0x00]"
    by (simp add: le16_def)
  have b: "bt_le_scan_start env_sync_fails ?p (Some 1) dev_scanning
   = (Val (- 5),
      dev_scanning\<lparr>calls := [HciCmdCreate BT_HCI_OP_LE_SET_SCAN_ENABLE 2,
                              HciCmdSendSync BT_HCI_OP_LE_SET_SCAN_ENABLE [0, 0]]\<rparr>)"
    using scan_start_guard [OF r(3) v, of env_sync_fails "Some 1"]
    by (simp add: Let_def dev_scanning_def dev_boot_def env_sync_fails_def env_ok_def
        BT_LE_SCAN_DISABLE_def BT_LE_SCAN_FILTER_DUP_DISABLE_def)
  have c: "bt_le_scan_start env_sync_fails ?p (Some 1) dev_ready
   = (Val (- 5),
      dev_ready\<lparr>flags := {BT_DEV_ENABLE, BT_DEV_READY, BT_DEV_SCAN_FILTER_DUP},
                calls := [HciCmdCreate BT_HCI_OP_LE_SET_SCAN_PARAMS 7,
                          HciCmdSend BT_HCI_OP_LE_SET_SCAN_PARAMS
                            [0x01, 0x10, 0x00, 0x10, 0x00, 0x00, 0x00],
                          HciCmdCreate BT_HCI_OP_LE_SET_SCAN_ENABLE 2,
                          HciCmdSendSync BT_HCI_OP_LE_SET_SCAN_ENABLE [1, 1]]\<rparr>)"
    using scan_start_guard [OF r(1) v, of env_sync_fails "Some 1"]
    by (simp add: Let_def dev_ready_def dev_boot_def env_sync_fails_def env_ok_def le
        BT_LE_SCAN_ENABLE_def BT_LE_SCAN_ACTIVE_def BT_LE_SCAN_FILTER_DUP_ENABLE_def
        insert_commute)
  have d: "bt_le_scan_start env_ok ?p (Some 1) dev_scanning
   = (Val 0,
      dev_scanning\<lparr>flags := {BT_DEV_ENABLE, BT_DEV_READY, BT_DEV_SCANNING,
                               BT_DEV_EXPLICIT_SCAN, BT_DEV_ACTIVE_SCAN, BT_DEV_SCAN_FILTER_DUP},
                    scan_dev_found_cb := Some 1,
                    calls := [HciCmdCreate BT_HCI_OP_LE_SET_SCAN_ENABLE 2,
                              HciCmdSendSync BT_HCI_OP_LE_SET_SCAN_ENABLE [0, 0],
                              HciCmdCreate BT_HCI_OP_LE_SET_SCAN_PARAMS 7,
                              HciCmdSend BT_HCI_OP_LE_SET_SCAN_PARAMS
                                [0x01, 0x10, 0x00, 0x10, 0x00, 0x00, 0x00],
                              HciCmdCreate BT_HCI_OP_LE_SET_SCAN_ENABLE 2,
                              HciCmdSendSync BT_HCI_OP_LE_SET_SCAN_ENABLE [1, 1]]\<rparr>)"
    using scan_start_guard [OF r(3) v, of env_ok "Some 1"]
    by (simp add: Let_def dev_scanning_def dev_boot_def env_ok_def le
        BT_LE_SCAN_ENABLE_def BT_LE_SCAN_DISABLE_def BT_LE_SCAN_ACTIVE_def
        BT_LE_SCAN_FILTER_DUP_ENABLE_def BT_LE_SCAN_FILTER_DUP_DISABLE_def)
      (auto intro!: arg_cong [where f = "\<lambda>F. _\<lparr>flags := F\<rparr>"])
  have x: "BT_DEV_EXPLICIT_SCAN \<notin> flags dev_scanning"
    by (simp add: dev_scanning_def)
  show ?thesis
    using a b c d x by simp
qed

subsection \<open>Identity lookup and address generation\<close>

lemma id_find_from_in_range:
  assumes "n \<le> length tbl"
  shows "\<exists>r. id_find_from a tbl n i = Ret r \<and> (nonneg r \<longleftrightarrow> a \<in> set (take n tbl))"
  using assms
proof (induction tbl arbitrary: n i)
  case Nil
  then show ?case by simp
next
  case (Cons x xs)
  show ?case
  proof (cases n)
    case 0
    then show ?thesis by simp
  next
    case (Suc m)
    then have "m \<le> length xs" using Cons.prems by simp
    from Cons.IH [OF this, of "Suc i"] show ?thesis
      using Suc by (auto simp add: bt_addr_le_cmp_def)
  qed
qed

lemma id_find_in_range:
  assumes "id_count s \<le> length (id_addr s)"
  shows "\<exists>r. id_find a s = Ret r \<and> (nonneg r \<longleftrightarrow> a \<in> set (take (id_count s) (id_addr s)))"
  unfolding id_find_def using assms by (rule id_find_from_in_range)

lemma create_static_frame:
  assumes "bt_addr_le_create_static E s = (err, a, s1)"
  shows "s1 = s\<lparr>calls := calls s @ [BtRand]\<rparr> \<and> atype a = BT_ADDR_LE_RANDOM"
  using assms
  by (auto simp add: bt_addr_le_create_static_def create_random_addr_def call_def Let_def
      BT_ADDR_SET_STATIC_def split: prod.splits if_splits)

lemma new_static_addr_fresh:
  assumes "new_static_addr E s = Some y"
  shows "id_count s \<le> length (id_addr s) \<longrightarrow>
         (\<exists>a cs. y = Ret (a, s\<lparr>calls := cs\<rparr>)
                 \<and> a \<notin> set (take (id_count s) (id_addr s))
                 \<and> atype a = BT_ADDR_LE_RANDOM)"
proof (rule new_static_addr.raw_induct
    [where P = "\<lambda>E s y. id_count s \<le> length (id_addr s) \<longrightarrow>
         (\<exists>a cs. y = Ret (a, s\<lparr>calls := cs\<rparr>)
                 \<and> a \<notin> set (take (id_count s) (id_addr s))
                 \<and> atype a = BT_ADDR_LE_RANDOM)", OF _ assms])
  fix f :: "env \<Rightarrow> bt_dev_s \<Rightarrow> (bt_addr_le \<times> bt_dev_s) result option"
  fix E s y
  assume IH: "\<And>E s y. f E s = Some y \<Longrightarrow> id_count s \<le> length (id_addr s) \<longrightarrow>
         (\<exists>a cs. y = Ret (a, s\<lparr>calls := cs\<rparr>)
                 \<and> a \<notin> set (take (id_count s) (id_addr s))
                 \<and> atype a = BT_ADDR_LE_RANDOM)"
  assume body: "(let p = bt_addr_le_create_static E s; a = fst (snd p); s1 = snd (snd p);
          f' = id_find a s1
      in if f' = Fault then Some Fault
         else if found f' then f E s1
         else Some (Ret (a, s1))) = Some y"
  obtain err a s1 where c: "bt_addr_le_create_static E s = (err, a, s1)"
    by (cases "bt_addr_le_create_static E s")
  note fr = create_static_frame [OF c]
  show "id_count s \<le> length (id_addr s) \<longrightarrow>
         (\<exists>a cs. y = Ret (a, s\<lparr>calls := cs\<rparr>)
                 \<and> a \<notin> set (take (id_count s) (id_addr s))
                 \<and> atype a = BT_ADDR_LE_RANDOM)"
  proof
    assume le: "id_count s \<le> length (id_addr s)"
    have le1: "id_count s1 \<le> length (id_addr s1)"
      by (subst conjunct1 [OF fr], subst conjunct1 [OF fr]) (simp add: le)
    from id_find_in_range [OF le1, of a] obtain r
      where r: "id_find a s1 = Ret r"
        and nn: "nonneg r \<longleftrightarrow> a \<in> set (take (id_count s1) (id_addr s1))"
      by blast
    have same: "id_count s1 = id_count s" "id_addr s1 = id_addr s"
      by (subst conjunct1 [OF fr], simp)+
    show "\<exists>a cs. y = Ret (a, s\<lparr>calls := cs\<rparr>)
                 \<and> a \<notin> set (take (id_count s) (id_addr s))
                 \<and> atype a = BT_ADDR_LE_RANDOM"
    proof (cases "nonneg r")
      case True
      then have "f E s1 = Some y"
        using body c r by (simp add: Let_def found_def)
      from IH [OF this] le1 obtain a' cs
        where y: "y = Ret (a', s1\<lparr>calls := cs\<rparr>)"
          and fresh: "a' \<notin> set (take (id_count s1) (id_addr s1))"
          and rnd: "atype a' = BT_ADDR_LE_RANDOM"
        by blast
      have "s1\<lparr>calls := cs\<rparr> = s\<lparr>calls := cs\<rparr>"
        by (subst conjunct1 [OF fr]) simp
      then show ?thesis
        using y fresh rnd same by auto
    next
      case False
      then have "y = Ret (a, s1)"
        using body c r by (simp add: Let_def found_def)
      moreover have "s1 = s\<lparr>calls := calls s @ [BtRand]\<rparr>"
        using fr by simp
      moreover have "a \<notin> set (take (id_count s) (id_addr s))"
        using False nn same by simp
      ultimately show ?thesis
        using fr by blast
    qed
  qed
qed

lemma random_not_any: "atype a = BT_ADDR_LE_RANDOM \<Longrightarrow> a \<noteq> BT_ADDR_LE_ANY"
  by (auto simp add: BT_ADDR_LE_RANDOM_def BT_ADDR_LE_ANY_def)

lemma id_create_supplied:
  assumes "a \<noteq> BT_ADDR_LE_ANY"
  shows "id_create E idx (Some a) s = id_store idx a s"
  using assms by (simp add: id_create_def bt_addr_le_cmp_def)

lemma id_create_result:
  assumes "id_create E idx addr s = Ret s'" and "id_count s \<le> length (id_addr s)"
  shows "\<exists>a cs. s' = s\<lparr>id_addr := (id_addr s)[idx := a], calls := cs\<rparr>
                \<and> idx < length (id_addr s)
                \<and> a \<noteq> BT_ADDR_LE_ANY
                \<and> (addr = Some a \<or> a \<notin> set (take (id_count s) (id_addr s)))"
proof (cases "\<exists>b. addr = Some b \<and> b \<noteq> BT_ADDR_LE_ANY")
  case True
  then obtain b where b: "addr = Some b" "b \<noteq> BT_ADDR_LE_ANY" by blast
  then have "id_store idx b s = Ret s'"
    using assms(1) id_create_supplied by simp
  then have "s' = s\<lparr>id_addr := (id_addr s)[idx := b], calls := calls s\<rparr> \<and> idx < length (id_addr s)"
    by (auto simp add: id_store_def split: if_splits)
  then show ?thesis
    using b by blast
next
  case False
  then have sel: "(if addr = None then None
            else if bt_addr_le_cmp (the addr) BT_ADDR_LE_ANY then addr else None) = None"
    by (cases addr) (auto simp add: bt_addr_le_cmp_def)
  obtain a s1 where n: "new_static_addr E s = Some (Ret (a, s1))"
      and st: "id_store idx a s1 = Ret s'"
    using assms(1) unfolding id_create_def sel
    by (auto split: option.splits result.splits)
  from new_static_addr_fresh [OF n] assms(2) obtain cs
    where s1: "s1 = s\<lparr>calls := cs\<rparr>"
      and fresh: "a \<notin> set (take (id_count s) (id_addr s))"
      and rnd: "atype a = BT_ADDR_LE_RANDOM"
    by auto
  have "s' = s\<lparr>id_addr := (id_addr s)[idx := a], calls := cs\<rparr> \<and> idx < length (id_addr s)"
    using st s1 by (auto simp add: id_store_def split: if_splits)
  then show ?thesis
    using fresh random_not_any [OF rnd] by blast
qed

lemma id_addr_check_cases:
  assumes "id_count s \<le> length (id_addr s)"
  shows "id_addr_check addr s =
           (case addr of
              None \<Rightarrow> Ret None
            | Some a \<Rightarrow>
                if a = BT_ADDR_LE_ANY then Ret None
                else if atype a \<noteq> BT_ADDR_LE_RANDOM \<or> \<not> BT_ADDR_IS_STATIC a
                then Ret (Some (Neg EINVAL))
                else if a \<in> set (take (id_count s) (id_addr s)) then Ret (Some (Neg EALREADY))
                else Ret None)"
proof (cases addr)
  case None
  then show ?thesis by (simp add: id_addr_check_def)
next
  case (Some a)
  from id_find_in_range [OF assms, of a] obtain r
    where "id_find a s = Ret r" "nonneg r \<longleftrightarrow> a \<in> set (take (id_count s) (id_addr s))"
    by blast
  then show ?thesis
    using Some by (simp add: id_addr_check_def bt_addr_le_cmp_def)
qed

lemma addr_static:
  "BT_ADDR_IS_STATIC addr_a" "BT_ADDR_IS_STATIC addr_b" "BT_ADDR_IS_STATIC addr_c"
  "BT_ADDR_IS_STATIC addr_d"
  by (simp_all add: BT_ADDR_IS_STATIC_def addr_a_def addr_b_def addr_c_def addr_d_def)


text \<open>
  Creating the first identity of the sample device with a generated address: the first
  draw is fresh, so the loop runs once.
\<close>

lemma bt_id_create_generated:
  "bt_id_create env_ok None dev_boot
   = Ret (Val 0, (dev_ids [addr_a, BT_ADDR_LE_ANY, BT_ADDR_LE_ANY, BT_ADDR_LE_ANY] 1)
                   \<lparr>calls := [BtRand]\<rparr>)"
  apply (simp only: bt_id_create_def id_create_def)
  apply (subst new_static_addr.simps)
  apply code_simp
  done

subsection \<open>Results of \<open>bt_id_create\<close>\<close>

lemma bt_id_create_success:
  assumes "id_count s \<le> length (id_addr s)"
      and h: "nonneg r \<and> bt_id_create E addr s = Ret (r, s')"
  shows "r = Val (int (id_count s))
         \<and> id_count s' = id_count s + 1
         \<and> id_count s < length (id_addr s)
         \<and> length (id_addr s') = length (id_addr s)
         \<and> take (id_count s) (id_addr s') = take (id_count s) (id_addr s)
         \<and> id_addr s' ! id_count s \<noteq> BT_ADDR_LE_ANY
         \<and> id_addr s' ! id_count s \<notin> set (take (id_count s) (id_addr s))
         \<and> keeps_enable s s'"
proof -
  have chk: "id_addr_check addr s = Ret None"
    using h assms
    by (auto simp add: bt_id_create_def id_addr_check_cases [OF assms(1)]
        split: option.splits if_splits)
  have room: "id_count s \<noteq> length (id_addr s)"
    using h assms unfolding bt_id_create_def chk by (auto split: if_splits)
  define s2 where "s2 = (if id_count s = BT_ID_DEFAULT
                            \<and> \<not> bt_atomic_testbit (s\<lparr>id_count := id_count s + 1\<rparr>) BT_DEV_READY
                       then bt_atomic_setbit BT_DEV_USER_ID_ADDR (s\<lparr>id_count := id_count s + 1\<rparr>)
                       else s\<lparr>id_count := id_count s + 1\<rparr>)"
  have s2: "id_count s2 = id_count s + 1" "id_addr s2 = id_addr s"
    by (simp_all add: s2_def bt_atomic_setbit_def)
  have eq: "bt_id_create E addr s =
              (case id_create E (id_count s) addr s2 of
                 Ret s3 \<Rightarrow> Ret (Val (int (id_count s)), s3)
               | Fault \<Rightarrow> Fault
               | Hang \<Rightarrow> Hang)"
    using room unfolding bt_id_create_def chk s2_def Let_def by simp
  have cr: "id_create E (id_count s) addr s2 = Ret s'" and r: "r = Val (int (id_count s))"
    using h assms unfolding eq by (cases "id_create E (id_count s) addr s2"; simp)+
  have le2: "id_count s2 \<le> length (id_addr s2)"
    using room assms(1) s2 by simp
  from id_create_result [OF cr le2] obtain x cs
    where s': "s' = s2\<lparr>id_addr := (id_addr s2)[id_count s := x], calls := cs\<rparr>"
      and x: "x \<noteq> BT_ADDR_LE_ANY"
      and src: "addr = Some x \<or> x \<notin> set (take (id_count s2) (id_addr s2))"
    by blast
  have fresh: "x \<notin> set (take (id_count s) (id_addr s))"
  proof (cases "addr = Some x")
    case True
    then show ?thesis
      using chk x by (auto simp add: id_addr_check_cases [OF assms(1)] split: if_splits)
  next
    case False
    then have "x \<notin> set (take (Suc (id_count s)) (id_addr s))"
      using src s2 by simp
    moreover have "set (take (id_count s) (id_addr s)) \<subseteq> set (take (Suc (id_count s)) (id_addr s))"
      by (rule set_take_subset_set_take) simp
    ultimately show ?thesis by blast
  qed
  have lt: "id_count s < length (id_addr s)"
    using room assms(1) by simp
  
  have ke: "keeps_enable s s2"
    by (simp add: s2_def keeps_enable_def bt_atomic_setbit_def)
  show ?thesis
    using r s2 x fresh lt ke by (simp add: s' keeps_enable_def)
qed

lemma bt_id_create_failure:
  assumes "bt_id_create E addr s = Ret (r, s')" and "\<not> nonneg r"
  shows "s' = s"
proof (cases "id_addr_check addr s")
  case (Ret c)
  show ?thesis
  proof (cases c)
    case (Some r0)
    then show ?thesis
      using assms Ret by (simp add: bt_id_create_def)
  next
    case None
    show ?thesis
    proof (cases "id_count s = length (id_addr s)")
      case True
      then show ?thesis
        using assms Ret None by (simp add: bt_id_create_def)
    next
      case False
      then show ?thesis
        using assms Ret None
        by (auto simp add: bt_id_create_def Let_def split: result.splits)
    qed
  qed
next
  case Fault
  then show ?thesis using assms by (simp add: bt_id_create_def)
next
  case Hang
  then show ?thesis using assms by (simp add: bt_id_create_def)
qed

subsection \<open>Creating an identity\<close>

text \<open>
  C6. On a table whose count does not exceed its capacity, \<open>bt_id_create\<close>
  \<^item> rejects a supplied address that is neither the wildcard nor static random with
    \<open>-EINVAL\<close>;
  \<^item> rejects a supplied static random address found among the first \<open>id_count\<close> entries
    with \<open>-EALREADY\<close>;
  \<^item> rejects with \<open>-ENOMEM\<close> when the address passed these checks (or none was
    supplied) and \<open>id_count\<close> equals the capacity;
  \<^item> with a fresh supplied address and room left, returns the old \<open>id_count\<close>, having
    stored the address at that index and incremented the counter (and set
    \<open>BT_DEV_USER_ID_ADDR\<close> when this is identity 0 before READY);
  \<^item> whenever it returns a non-negative value, with a supplied or a generated address,
    that value is the old \<open>id_count\<close>, the counter is one more, the entries below are
    unchanged and the new entry is a non-wildcard address not among them.
  None of the rejections changes the state.
\<close>

theorem bt_id_create_cases:
  assumes "id_count s \<le> length (id_addr s)"
  shows "(addr = Some a \<and> a \<noteq> BT_ADDR_LE_ANY
            \<and> (atype a \<noteq> BT_ADDR_LE_RANDOM \<or> \<not> BT_ADDR_IS_STATIC a)
          \<longrightarrow> bt_id_create E addr s = Ret (Neg EINVAL, s))
       \<and> (addr = Some a \<and> a \<noteq> BT_ADDR_LE_ANY
            \<and> atype a = BT_ADDR_LE_RANDOM \<and> BT_ADDR_IS_STATIC a
            \<and> a \<in> set (take (id_count s) (id_addr s))
          \<longrightarrow> bt_id_create E addr s = Ret (Neg EALREADY, s))
       \<and> ((addr = None \<or> addr = Some BT_ADDR_LE_ANY
             \<or> addr = Some a \<and> atype a = BT_ADDR_LE_RANDOM \<and> BT_ADDR_IS_STATIC a
                \<and> a \<notin> set (take (id_count s) (id_addr s)))
            \<and> id_count s = length (id_addr s)
          \<longrightarrow> bt_id_create E addr s = Ret (Neg ENOMEM, s))
       \<and> (addr = Some a \<and> a \<noteq> BT_ADDR_LE_ANY
            \<and> atype a = BT_ADDR_LE_RANDOM \<and> BT_ADDR_IS_STATIC a
            \<and> a \<notin> set (take (id_count s) (id_addr s))
            \<and> id_count s < length (id_addr s)
          \<longrightarrow> bt_id_create E addr s =
                Ret (Val (int (id_count s)),
                     s\<lparr>id_count := id_count s + 1,
                       flags := (if id_count s = 0 \<and> BT_DEV_READY \<notin> flags s
                                 then insert BT_DEV_USER_ID_ADDR (flags s) else flags s),
                       id_addr := (id_addr s)[id_count s := a]\<rparr>))
       \<and> (nonneg r \<and> bt_id_create E addr s = Ret (r, s')
          \<longrightarrow> r = Val (int (id_count s))
              \<and> id_count s' = id_count s + 1
              \<and> id_count s < length (id_addr s)
              \<and> length (id_addr s') = length (id_addr s)
              \<and> take (id_count s) (id_addr s') = take (id_count s) (id_addr s)
              \<and> id_addr s' ! id_count s \<noteq> BT_ADDR_LE_ANY
              \<and> id_addr s' ! id_count s \<notin> set (take (id_count s) (id_addr s)))"
proof -
  note chk = id_addr_check_cases [OF assms]
  have c1: "addr = Some a \<and> a \<noteq> BT_ADDR_LE_ANY
            \<and> (atype a \<noteq> BT_ADDR_LE_RANDOM \<or> \<not> BT_ADDR_IS_STATIC a)
          \<longrightarrow> bt_id_create E addr s = Ret (Neg EINVAL, s)"
    by (auto simp add: bt_id_create_def chk)
  have c2: "addr = Some a \<and> a \<noteq> BT_ADDR_LE_ANY
            \<and> atype a = BT_ADDR_LE_RANDOM \<and> BT_ADDR_IS_STATIC a
            \<and> a \<in> set (take (id_count s) (id_addr s))
          \<longrightarrow> bt_id_create E addr s = Ret (Neg EALREADY, s)"
    by (auto simp add: bt_id_create_def chk)
  have c3: "(addr = None \<or> addr = Some BT_ADDR_LE_ANY
             \<or> addr = Some a \<and> atype a = BT_ADDR_LE_RANDOM \<and> BT_ADDR_IS_STATIC a
                \<and> a \<notin> set (take (id_count s) (id_addr s)))
            \<and> id_count s = length (id_addr s)
          \<longrightarrow> bt_id_create E addr s = Ret (Neg ENOMEM, s)"
    by (auto simp add: bt_id_create_def chk)
  have c4: "addr = Some a \<and> a \<noteq> BT_ADDR_LE_ANY
            \<and> atype a = BT_ADDR_LE_RANDOM \<and> BT_ADDR_IS_STATIC a
            \<and> a \<notin> set (take (id_count s) (id_addr s))
            \<and> id_count s < length (id_addr s)
          \<longrightarrow> bt_id_create E addr s =
                Ret (Val (int (id_count s)),
                     s\<lparr>id_count := id_count s + 1,
                       flags := (if id_count s = 0 \<and> BT_DEV_READY \<notin> flags s
                                 then insert BT_DEV_USER_ID_ADDR (flags s) else flags s),
                       id_addr := (id_addr s)[id_count s := a]\<rparr>)"
    by (auto simp add: bt_id_create_def chk id_create_supplied id_store_def Let_def
        bt_atomic_testbit_def bt_atomic_setbit_def BT_ID_DEFAULT_def)
  have c5: "nonneg r \<and> bt_id_create E addr s = Ret (r, s')
          \<longrightarrow> r = Val (int (id_count s))
              \<and> id_count s' = id_count s + 1
              \<and> id_count s < length (id_addr s)
              \<and> length (id_addr s') = length (id_addr s)
              \<and> take (id_count s) (id_addr s') = take (id_count s) (id_addr s)
              \<and> id_addr s' ! id_count s \<noteq> BT_ADDR_LE_ANY
              \<and> id_addr s' ! id_count s \<notin> set (take (id_count s) (id_addr s))"
    using bt_id_create_success [OF assms, of r E addr s'] by blast
  show ?thesis
    by (intro conjI c1 c2 c3 c4 c5)
qed

theorem bt_id_create_cases_witness:
  "bt_id_create env_ok (Some \<lparr>atype = 0x00, val = 0x0000C0FFEE01\<rparr>) dev_boot
     = Ret (Neg EINVAL, dev_boot)
   \<and> bt_id_create env_ok (Some addr_a) dev_boot
     = Ret (Val 0, dev_ids [addr_a, BT_ADDR_LE_ANY, BT_ADDR_LE_ANY, BT_ADDR_LE_ANY] 1)
   \<and> bt_id_create env_ok (Some addr_a)
        (dev_ids [addr_a, BT_ADDR_LE_ANY, BT_ADDR_LE_ANY, BT_ADDR_LE_ANY] 1)
     = Ret (Neg EALREADY, dev_ids [addr_a, BT_ADDR_LE_ANY, BT_ADDR_LE_ANY, BT_ADDR_LE_ANY] 1)
   \<and> bt_id_create env_ok None (dev_ids [addr_a, addr_b, addr_c, addr_d] 4)
     = Ret (Neg ENOMEM, dev_ids [addr_a, addr_b, addr_c, addr_d] 4)
   \<and> bt_id_create env_ok None dev_boot
     = Ret (Val 0, (dev_ids [addr_a, BT_ADDR_LE_ANY, BT_ADDR_LE_ANY, BT_ADDR_LE_ANY] 1)
                     \<lparr>calls := [BtRand]\<rparr>)
   \<and> id_count ((dev_ids [addr_a, BT_ADDR_LE_ANY, BT_ADDR_LE_ANY, BT_ADDR_LE_ANY] 1)
                  \<lparr>calls := [BtRand]\<rparr>) = id_count dev_boot + 1
   \<and> id_addr ((dev_ids [addr_a, BT_ADDR_LE_ANY, BT_ADDR_LE_ANY, BT_ADDR_LE_ANY] 1)
                 \<lparr>calls := [BtRand]\<rparr>) ! id_count dev_boot \<noteq> BT_ADDR_LE_ANY"
proof -
  let ?gen = "(dev_ids [addr_a, BT_ADDR_LE_ANY, BT_ADDR_LE_ANY, BT_ADDR_LE_ANY] 1)
                \<lparr>calls := [BtRand]\<rparr>"
  have g: "nonneg (Val 0) \<and> bt_id_create env_ok None dev_boot = Ret (Val 0, ?gen)"
    using bt_id_create_generated by simp
  have le: "id_count dev_boot \<le> length (id_addr dev_boot)"
    by (simp add: dev_boot_def)
  have gen: "id_count ?gen = id_count dev_boot + 1"
            "id_addr ?gen ! id_count dev_boot \<noteq> BT_ADDR_LE_ANY"
    using bt_id_create_cases [OF le, of None addr_a env_ok "Val 0" ?gen] g by blast+
  let ?pub = "\<lparr>atype = 0x00, val = 0x0000C0FFEE01\<rparr> :: bt_addr_le"
  let ?one = "dev_ids [addr_a, BT_ADDR_LE_ANY, BT_ADDR_LE_ANY, BT_ADDR_LE_ANY] 1"
  let ?full = "dev_ids [addr_a, addr_b, addr_c, addr_d] 4"
  have pub: "?pub \<noteq> BT_ADDR_LE_ANY" "atype ?pub \<noteq> BT_ADDR_LE_RANDOM"
    by (simp_all add: BT_ADDR_LE_ANY_def BT_ADDR_LE_RANDOM_def)
  have a: "addr_a \<noteq> BT_ADDR_LE_ANY" "atype addr_a = BT_ADDR_LE_RANDOM"
    by (simp_all add: addr_a_def BT_ADDR_LE_ANY_def BT_ADDR_LE_RANDOM_def)
  have boot: "dev_boot\<lparr>id_count := id_count dev_boot + 1,
                flags := (if id_count dev_boot = 0 \<and> BT_DEV_READY \<notin> flags dev_boot
                          then insert BT_DEV_USER_ID_ADDR (flags dev_boot) else flags dev_boot),
                id_addr := (id_addr dev_boot)[id_count dev_boot := addr_a]\<rparr> = ?one"
    by (simp add: dev_boot_def dev_ids_def numeral_eq_Suc)
  show ?thesis
    using bt_id_create_cases [of dev_boot "Some ?pub" ?pub env_ok]
      bt_id_create_cases [of dev_boot "Some addr_a" addr_a env_ok]
      bt_id_create_cases [of ?one "Some addr_a" addr_a env_ok]
      bt_id_create_cases [of ?full None addr_a env_ok]
      pub a addr_static(1) boot g gen
    by (simp add: dev_boot_def dev_ids_def)
qed

subsection \<open>Deleting an identity\<close>



subsection \<open>The device name\<close>

lemma ad_entry_first_name:
  assumes "unat (data_len d) \<le> length (adata d)" and "dtype d = BT_DATA_NAME_COMPLETE"
  shows "\<exists>sd'. ad_entry d set_data_zero = Ret (Inr sd')"
proof -
  define n where "n = unat (data_len d)"
  have u: "uint (data_len d) = int n"
    by (simp add: n_def)
  have z: "len set_data_zero = 0" "length (data set_data_zero) = 31"
    by (simp_all add: set_data_zero_def)
  show ?thesis
  proof (cases "31 < n + 2")
    case False
    then have "emit (int n) (dtype d) (adata d) set_data_zero =
                 Ret \<lparr>len = len set_data_zero + n + 2,
                      data = take (len set_data_zero) (data set_data_zero)
                             @ [word_of_nat (n + 1), dtype d] @ take n (adata d)
                             @ drop (len set_data_zero + n + 2) (data set_data_zero)\<rparr>"
      using assms(1) z by (intro emit_fits) (simp_all add: n_def)
    moreover have "\<not> 31 < int (len set_data_zero) + int n + 2"
      using False z by simp
    ultimately show ?thesis
      unfolding ad_entry_def Let_def u by simp
  next
    case True
    then have "emit (int 29) BT_DATA_NAME_SHORTENED (adata d) set_data_zero =
                 Ret \<lparr>len = len set_data_zero + 29 + 2,
                      data = take (len set_data_zero) (data set_data_zero)
                             @ [word_of_nat (29 + 1), BT_DATA_NAME_SHORTENED] @ take 29 (adata d)
                             @ drop (len set_data_zero + 29 + 2) (data set_data_zero)\<rparr>"
      using assms(1) z by (intro emit_fits) (simp_all add: n_def)
    moreover have "31 < int (len set_data_zero) + int n + 2"
      using True z by simp
    moreover have "31 - (int (len set_data_zero) + 2) = int 29"
      using z by simp
    ultimately show ?thesis
      unfolding ad_entry_def Let_def u using assms(2) by simp
  qed
qed

lemma set_ad_name_returns:
  assumes "unat (data_len d) \<le> length (adata d)" and "dtype d = BT_DATA_NAME_COMPLETE"
  shows "\<exists>r cs. set_ad E op [[d]] s = Ret (r, s\<lparr>calls := calls s @ HciCmdCreate op 32 # cs\<rparr>)"
proof -
  from ad_entry_first_name [OF assms] obtain sd'
    where "ad_entry d set_data_zero = Ret (Inr sd')" by blast
  then have "ad_sets [[d]] set_data_zero = Ret (Inr sd')"
    by simp
  then show ?thesis
    by (auto simp add: set_ad_def call_def Let_def)
qed

lemma name_record_ok:
  "unat (data_len \<lparr>dtype = BT_DATA_NAME_COMPLETE, data_len = word_of_nat (strlen nm),
                     adata = map of_char (c_str nm)\<rparr>)
     \<le> length (adata \<lparr>dtype = BT_DATA_NAME_COMPLETE, data_len = word_of_nat (strlen nm),
                        adata = map of_char (c_str nm) :: u8 list\<rparr>)"
  by (simp add: strlen_def unat_of_nat)

lemma set_advertise_enable_keeps:
  "keeps_ids s (snd (set_advertise_enable E en s))"
  "keeps_enable s (snd (set_advertise_enable E en s))"
  "name (snd (set_advertise_enable E en s)) = name s"
  "\<exists>cs. calls (snd (set_advertise_enable E en s)) = calls s @ cs"
  by (simp_all add: set_advertise_enable_def call_def Let_def bt_atomic_setbit_def
      bt_atomic_clrbit_def keeps_ids_def keeps_enable_def)

lemma c_str_strncpy:
  assumes "strlen src < n"
  shows "c_str (strncpy dst src n) = c_str src"
proof -
  define k where "k = n - Suc (strlen src)"
  have n: "n = strlen src + Suc k"
    using assms by (simp add: k_def)
  have "take n (c_str src @ replicate n NUL) = c_str src @ NUL # replicate k NUL"
    unfolding n by (simp add: strlen_def replicate_add [symmetric] flip: replicate_Suc)
  moreover have "\<forall>c\<in>set (c_str src). c \<noteq> NUL"
    by (auto simp add: c_str_def dest: set_takeWhileD)
  ultimately show ?thesis
    by (simp add: strncpy_def c_str_def [of "_ @ _"] takeWhile_append2)
qed

lemma bt_set_name_new:
  assumes "strlen nm < length (name s)" and "c_str (name s) \<noteq> c_str nm"
  shows "\<exists>s'. bt_set_name E nm s = Ret (Val 0, s')
              \<and> name s' = strncpy (name s) nm (length (name s))
              \<and> keeps_ids s s' \<and> keeps_enable s s'
              \<and> (if BT_DEV_ADVERTISING_NAME \<in> flags s
                  then \<exists>cs. calls s' = calls s
                              @ HciCmdCreate BT_HCI_OP_LE_SET_SCAN_RSP_DATA 32 # cs
                  else calls s' = calls s)"
proof -
  define s1 where "s1 = s\<lparr>name := strncpy (name s) nm (length (name s))\<rparr>"
  define d :: bt_data where "d = \<lparr>dtype = BT_DATA_NAME_COMPLETE,
                     data_len = word_of_nat (strlen nm),
                     adata = map of_char (c_str nm)\<rparr>"
  have k1: "keeps_ids s s1" "keeps_enable s s1" "name s1 = strncpy (name s) nm (length (name s))"
    "calls s1 = calls s" "flags s1 = flags s"
    by (simp_all add: s1_def keeps_ids_def keeps_enable_def)
  have d: "unat (data_len d) \<le> length (adata d)" "dtype d = BT_DATA_NAME_COMPLETE"
    using name_record_ok [of nm] by (simp_all add: d_def)
  from set_ad_name_returns [OF d, of E BT_HCI_OP_LE_SET_SCAN_RSP_DATA s1] obtain r cs
    where sa: "set_ad E BT_HCI_OP_LE_SET_SCAN_RSP_DATA [[d]] s1
                 = Ret (r, s1\<lparr>calls := calls s1
                                  @ HciCmdCreate BT_HCI_OP_LE_SET_SCAN_RSP_DATA 32 # cs\<rparr>)"
    by blast
  define s2 where "s2 = s1\<lparr>calls := calls s1
                                  @ HciCmdCreate BT_HCI_OP_LE_SET_SCAN_RSP_DATA 32 # cs\<rparr>"
  have k2: "keeps_ids s s2" "keeps_enable s s2" "name s2 = strncpy (name s) nm (length (name s))"
    "calls s2 = calls s @ HciCmdCreate BT_HCI_OP_LE_SET_SCAN_RSP_DATA 32 # cs"
    using k1 by (simp_all add: s2_def keeps_ids_def keeps_enable_def)
  define s3 where "s3 = snd (set_advertise_enable E False s2)"
  define s4 where "s4 = snd (set_advertise_enable E True s3)"
  have k3: "keeps_ids s s3" "keeps_enable s s3" "name s3 = strncpy (name s) nm (length (name s))"
    using k2 set_advertise_enable_keeps [where s = s2 and E = E and en = False]
    by (simp_all add: s3_def keeps_ids_def keeps_enable_def)
  obtain cs3 where c3: "calls s3 = calls s2 @ cs3"
    using set_advertise_enable_keeps(4) [where s = s2 and E = E and en = False]
    unfolding s3_def by blast
  have k4: "keeps_ids s s4" "keeps_enable s s4" "name s4 = strncpy (name s) nm (length (name s))"
    using k3 set_advertise_enable_keeps [where s = s3 and E = E and en = True]
    by (simp_all add: s4_def keeps_ids_def keeps_enable_def)
  obtain cs4 where c4: "calls s4 = calls s3 @ cs4"
    using set_advertise_enable_keeps(4) [where s = s3 and E = E and en = True]
    unfolding s4_def by blast
  have c4': "calls s4 = calls s @ HciCmdCreate BT_HCI_OP_LE_SET_SCAN_RSP_DATA 32 # (cs @ cs3 @ cs4)"
    by (simp add: c4 c3 k2(4))
  have "bt_set_name E nm s =
          (if bt_atomic_testbit s1 BT_DEV_ADVERTISING_NAME
           then (if bt_atomic_testbit s2 BT_DEV_ADVERTISING then Ret (Val 0, s4)
                 else Ret (Val 0, s2))
           else Ret (Val 0, s1))"
    using assms sa
    unfolding bt_set_name_def s1_def [symmetric] d_def [symmetric] Let_def s4_def s3_def s2_def
    by (simp add: strcmp_def)
  then show ?thesis
    using k1 k2 k4 c4' by (auto simp add: bt_atomic_testbit_def)
qed

text \<open>
  C9. For every name \<open>X\<close> shorter than the name array, \<open>bt_set_name\<close> returns 0 and
  \<open>bt_get_name\<close> then points to a string equal to \<open>X\<close>; and when \<open>X\<close> equals the
  stored name, \<open>bt_set_name\<close> returns 0 and leaves the whole state as it was, the
  history of calls included: nothing is sent to the transport.
\<close>

theorem set_name_round_trip:
  assumes "strlen X < length (name s)"
  shows "(\<exists>s'. bt_set_name E X s = Ret (Val 0, s') \<and> c_str (bt_get_name s') = c_str X)
       \<and> (c_str (bt_get_name s) = c_str X \<longrightarrow> bt_set_name E X s = Ret (Val 0, s))"
proof (cases "c_str (name s) = c_str X")
  case True
  then have "bt_set_name E X s = Ret (Val 0, s)"
    using assms by (simp add: bt_set_name_def strcmp_def)
  then show ?thesis
    using True by (simp add: bt_get_name_def)
next
  case False
  from bt_set_name_new [OF assms False, of E] obtain s'
    where "bt_set_name E X s = Ret (Val 0, s')"
      and "name s' = strncpy (name s) X (length (name s))"
    by blast
  then show ?thesis
    using False c_str_strncpy [OF assms] by (simp add: bt_get_name_def)
qed

theorem set_name_round_trip_witness:
  "strlen ''ab'' < length (name dev_boot)
   \<and> bt_set_name env_ok ''ab'' dev_boot = Ret (Val 0, dev_named)
   \<and> c_str (bt_get_name dev_named) = ''ab''
   \<and> bt_set_name env_ok ''ab'' dev_named = Ret (Val 0, dev_named)"
proof -
  have l: "strlen ''ab'' < length (name dev_boot)" "strlen ''ab'' < length (name dev_named)"
    by (simp_all add: strlen_def c_str_def NUL_def dev_boot_def dev_named_def)
  have c: "c_str (bt_get_name dev_named) = c_str ''ab''" "c_str ''ab'' = ''ab''"
    by (simp_all add: bt_get_name_def c_str_def NUL_def dev_named_def)
  have e: "bt_set_name env_ok ''ab'' dev_boot = Ret (Val 0, dev_named)"
    by code_simp
  show ?thesis
    using set_name_round_trip [OF l(1), of env_ok] set_name_round_trip [OF l(2), of env_ok] l c e
    by simp
qed

text \<open>
  C10. For every name that fits the array and differs from the stored one, and for
  every behaviour of the transport, \<open>bt_set_name\<close> returns 0 and the stored name is
  the new one. With \<open>BT_DEV_ADVERTISING_NAME\<close> set the transport was called (the first
  new call asks for the scan response command buffer); whatever it answered is not
  returned. The witness runs it against a transport whose every synchronous command
  fails.
\<close>

theorem set_name_ignores_transport:
  assumes "strlen X < length (name s)" and "c_str (name s) \<noteq> c_str X"
  shows "\<exists>s'. bt_set_name E X s = Ret (Val 0, s') \<and> c_str (name s') = c_str X
              \<and> (if BT_DEV_ADVERTISING_NAME \<in> flags s
                  then \<exists>cs. calls s' = calls s
                              @ HciCmdCreate BT_HCI_OP_LE_SET_SCAN_RSP_DATA 32 # cs
                  else calls s' = calls s)"
proof -
  from bt_set_name_new [OF assms, of E] obtain s'
    where r: "bt_set_name E X s = Ret (Val 0, s')"
      and n: "name s' = strncpy (name s) X (length (name s))"
      and c: "if BT_DEV_ADVERTISING_NAME \<in> flags s
              then \<exists>cs. calls s' = calls s
                          @ HciCmdCreate BT_HCI_OP_LE_SET_SCAN_RSP_DATA 32 # cs
              else calls s' = calls s"
    by blast
  have "c_str (name s') = c_str X"
    unfolding n by (rule c_str_strncpy [OF assms(1)])
  then show ?thesis
    using r c by blast
qed

theorem set_name_ignores_transport_witness:
  "strlen ''ab'' < length (name dev_adv)
   \<and> c_str (name dev_adv) \<noteq> c_str ''ab''
   \<and> hci_cmd_send_sync env_sync_fails [] \<noteq> 0
   \<and> bt_set_name env_sync_fails ''ab'' dev_adv
     = Ret (Val 0,
            dev_adv\<lparr>name := ''ab'' @ replicate 6 NUL,
                    calls := [HciCmdCreate BT_HCI_OP_LE_SET_SCAN_RSP_DATA 32,
                              HciCmdSendSync BT_HCI_OP_LE_SET_SCAN_RSP_DATA
                                ([4, 3, 0x09, 0x61, 0x62] @ replicate 27 0),
                              HciCmdCreate BT_HCI_OP_LE_SET_ADV_ENABLE 1,
                              HciCmdSendSync BT_HCI_OP_LE_SET_ADV_ENABLE [1],
                              HciCmdCreate BT_HCI_OP_LE_SET_ADV_ENABLE 1,
                              HciCmdSendSync BT_HCI_OP_LE_SET_ADV_ENABLE [1]]\<rparr>)"
proof -
  have l: "strlen ''ab'' < length (name dev_adv)"
    by (simp add: strlen_def c_str_def NUL_def dev_boot_def dev_ready_def dev_adv_def)
  have c: "c_str (name dev_adv) \<noteq> c_str ''ab''"
    by (simp add: c_str_def NUL_def dev_boot_def dev_ready_def dev_adv_def)
  have f: "hci_cmd_send_sync env_sync_fails [] \<noteq> 0"
    by (simp add: env_sync_fails_def)
  have e: "bt_set_name env_sync_fails ''ab'' dev_adv
     = Ret (Val 0,
            dev_adv\<lparr>name := ''ab'' @ replicate 6 NUL,
                    calls := [HciCmdCreate BT_HCI_OP_LE_SET_SCAN_RSP_DATA 32,
                              HciCmdSendSync BT_HCI_OP_LE_SET_SCAN_RSP_DATA
                                ([4, 3, 0x09, 0x61, 0x62] @ replicate 27 0),
                              HciCmdCreate BT_HCI_OP_LE_SET_ADV_ENABLE 1,
                              HciCmdSendSync BT_HCI_OP_LE_SET_ADV_ENABLE [1],
                              HciCmdCreate BT_HCI_OP_LE_SET_ADV_ENABLE 1,
                              HciCmdSendSync BT_HCI_OP_LE_SET_ADV_ENABLE [1]]\<rparr>)"
    by code_simp
  show ?thesis
    using set_name_ignores_transport [OF l c, of env_sync_fails] l c f e
    by simp
qed

subsection \<open>The identity table invariant under the identity operations\<close>

lemma distinct_filter_update:
  assumes "distinct (filter P ys)" and "\<not> P a \<or> a \<notin> set ys"
  shows "distinct (filter P (ys[i := a]))"
  using assms
proof (induction ys arbitrary: i)
  case Nil
  then show ?case by simp
next
  case (Cons y ys)
  show ?case
  proof (cases i)
    case 0
    then show ?thesis using Cons.prems by (auto split: if_splits)
  next
    case (Suc j)
    have d: "distinct (filter P (ys[j := a]))"
      using Cons.prems by (intro Cons.IH) (auto split: if_splits)
    have "y \<notin> set (filter P (ys[j := a]))" if "P y"
    proof
      assume "y \<in> set (filter P (ys[j := a]))"
      then have "y \<in> set (ys[j := a])" "P y" by auto
      then have "y = a \<or> y \<in> set ys"
        using set_update_subset_insert [of ys j a] by auto
      then show False
        using Cons.prems that by auto
    qed
    then show ?thesis
      using d Suc by simp
  qed
qed

lemma distinct_filter_take:
  assumes "distinct (filter P (take n xs))" and "m \<le> n"
  shows "distinct (filter P (take m xs))"
proof -
  have "take n xs = take m xs @ take (n - m) (drop m xs)"
    using assms(2) by (metis le_add_diff_inverse take_add)
  then show ?thesis
    using assms(1) by simp
qed

lemma table_ok_store:
  assumes "id_table_ok s" and "a \<notin> set (take (id_count s) (id_addr s)) \<or> a = BT_ADDR_LE_ANY"
  shows "id_table_ok (s\<lparr>id_addr := (id_addr s)[i := a], calls := cs\<rparr>)"
  using assms distinct_filter_update [of "\<lambda>a. a \<noteq> BT_ADDR_LE_ANY" "take (id_count s) (id_addr s)" a i]
  by (auto simp add: id_table_ok_def take_update_swap)

lemma table_ok_create:
  assumes "id_table_ok s" and "bt_id_create E addr s = Ret (r, s')"
  shows "id_table_ok s'"
proof (cases "nonneg r")
  case False
  then show ?thesis
    using assms bt_id_create_failure by blast
next
  case True
  have le: "id_count s \<le> length (id_addr s)"
    using assms(1) by (simp add: id_table_ok_def)
  from bt_id_create_success [OF le, of r E addr s'] True assms(2)
  have c: "id_count s' = Suc (id_count s)" and lt: "id_count s < length (id_addr s')"
    and tk: "take (id_count s) (id_addr s') = take (id_count s) (id_addr s)"
    and nw: "id_addr s' ! id_count s \<notin> set (take (id_count s) (id_addr s))"
    by simp_all
  have "take (id_count s') (id_addr s')
          = take (id_count s) (id_addr s) @ [id_addr s' ! id_count s]"
    unfolding c using lt tk by (simp add: take_Suc_conv_app_nth)
  then show ?thesis
    using assms(1) nw lt c by (simp add: id_table_ok_def)
qed

lemma bt_id_reset_result:
  assumes "bt_id_reset E idx addr s = Ret (r, s')" and "id_count s \<le> length (id_addr s)"
  shows "s' = s \<or> (\<exists>a cs. s' = s\<lparr>id_addr := (id_addr s)[idx := a], calls := cs\<rparr>
                      \<and> a \<notin> set (take (id_count s) (id_addr s)))"
proof (cases "\<exists>s1. id_addr_check addr s = Ret None \<and> id_create E idx addr s = Ret s1 \<and> s' = s1")
  case False
  then show ?thesis
    using assms(1)
    by (auto simp add: bt_id_reset_def bt_unpair_def split: result.splits option.splits if_splits)
next
  case True
  then have chk: "id_addr_check addr s = Ret None" and cr: "id_create E idx addr s = Ret s'"
    by auto
  from id_create_result [OF cr assms(2)] obtain a cs
    where s': "s' = s\<lparr>id_addr := (id_addr s)[idx := a], calls := cs\<rparr>"
      and a: "a \<noteq> BT_ADDR_LE_ANY"
      and src: "addr = Some a \<or> a \<notin> set (take (id_count s) (id_addr s))"
    by blast
  have "a \<notin> set (take (id_count s) (id_addr s))"
    using src chk a by (auto simp add: id_addr_check_cases [OF assms(2)] split: if_splits)
  then show ?thesis
    using s' by blast
qed

lemma table_ok_reset:
  assumes "id_table_ok s" and "bt_id_reset E idx addr s = Ret (r, s')"
  shows "id_table_ok s'"
proof -
  have le: "id_count s \<le> length (id_addr s)"
    using assms(1) by (simp add: id_table_ok_def)
  from bt_id_reset_result [OF assms(2) le] show ?thesis
    using assms(1) table_ok_store by auto
qed

lemma bt_id_delete_result:
  assumes "bt_id_delete idx s = Ret (r, s')"
  shows "s' = s
       \<or> s' = s\<lparr>id_addr := (id_addr s)[idx := BT_ADDR_LE_ANY]\<rparr>
       \<or> s' = s\<lparr>id_addr := (id_addr s)[idx := BT_ADDR_LE_ANY], id_count := id_count s - 1\<rparr>"
  using assms
  by (auto simp add: bt_id_delete_def bt_unpair_def Let_def split: if_splits)

lemma table_ok_delete:
  assumes "id_table_ok s" and "bt_id_delete idx s = Ret (r, s')"
  shows "id_table_ok s'"
proof -
  let ?P = "\<lambda>a. a \<noteq> BT_ADDR_LE_ANY"
  let ?t = "(id_addr s)[idx := BT_ADDR_LE_ANY]"
  have d: "distinct (filter ?P (take (id_count s) ?t))"
    using assms(1) distinct_filter_update [of ?P "take (id_count s) (id_addr s)" BT_ADDR_LE_ANY idx]
    by (simp add: id_table_ok_def take_update_swap)
  have d': "distinct (filter ?P (take (id_count s - 1) ?t))"
    by (rule distinct_filter_take [OF d]) simp
  from bt_id_delete_result [OF assms(2)] show ?thesis
    using assms(1) d d' by (auto simp add: id_table_ok_def)
qed

subsection \<open>What the calls leave alone\<close>

lemma keeps_ids_refl: "keeps_ids s s"
  by (simp add: keeps_ids_def)

lemma keeps_enable_refl: "keeps_enable s s"
  by (simp add: keeps_enable_def)

lemma keeps_ids_trans: "keeps_ids s s1 \<Longrightarrow> keeps_ids s1 s2 \<Longrightarrow> keeps_ids s s2"
  by (simp add: keeps_ids_def)

lemma keeps_enable_trans: "keeps_enable s s1 \<Longrightarrow> keeps_enable s1 s2 \<Longrightarrow> keeps_enable s s2"
  by (simp add: keeps_enable_def)

lemma table_ok_keeps_ids: "id_table_ok s \<Longrightarrow> keeps_ids s s' \<Longrightarrow> id_table_ok s'"
  by (simp add: id_table_ok_def keeps_ids_def)

lemma bt_set_name_returns:
  "\<exists>r s'. bt_set_name E nm s = Ret (r, s') \<and> keeps_ids s s' \<and> keeps_enable s s'"
proof (cases "strlen nm < length (name s) \<and> c_str (name s) \<noteq> c_str nm")
  case True
  then show ?thesis
    using bt_set_name_new [of nm s E] by blast
next
  case False
  then have "bt_set_name E nm s = Ret (Neg ENOMEM, s) \<or> bt_set_name E nm s = Ret (Val 0, s)"
    by (auto simp add: bt_set_name_def strcmp_def)
  then show ?thesis
    using keeps_ids_refl keeps_enable_refl by auto
qed

lemma bt_init_keeps:
  "keeps_ids s (snd (bt_init E s))"
  "keeps_enable s (snd (bt_init E s))"
  "\<exists>cs. calls (snd (bt_init E s)) = calls s @ cs"
  by (simp_all add: bt_init_def bt_conn_init_def bt_finalize_init_def call_def Let_def
      bt_atomic_setbit_def keeps_ids_def keeps_enable_def split: prod.splits)

lemma k_work_submit_keeps:
  "keeps_ids s (k_work_submit E s)"
  "keeps_enable s (k_work_submit E s)"
  "\<exists>cs. calls (k_work_submit E s) = calls s @ cs"
  by (simp_all add: k_work_submit_def call_def Let_def keeps_ids_def keeps_enable_def)

lemma init_work_keeps:
  "keeps_ids s (init_work E s)"
  "keeps_enable s (init_work E s)"
proof -
  define s0 where "s0 = s\<lparr>hip_work_queued := False\<rparr>"
  have a: "keeps_ids s s0" "keeps_enable s s0"
    by (simp_all add: s0_def keeps_ids_def keeps_enable_def)
  have b: "keeps_ids s0 (snd (bt_init E s0))" "keeps_enable s0 (snd (bt_init E s0))"
    by (rule bt_init_keeps)+
  have c: "keeps_ids (snd (bt_init E s0)) (init_work E s)"
          "keeps_enable (snd (bt_init E s0)) (init_work E s)"
    by (simp_all add: init_work_def s0_def [symmetric] call_def keeps_ids_def keeps_enable_def
        split: prod.splits option.splits)
  show "keeps_ids s (init_work E s)"
    using a(1) b(1) c(1) keeps_ids_trans by blast
  show "keeps_enable s (init_work E s)"
    using a(2) b(2) c(2) keeps_enable_trans by blast
qed

lemma bt_enable_again:
  assumes "btdev s" and "BT_DEV_ENABLE \<in> flags s"
  shows "bt_enable E cb s = Ret (Neg EALREADY, s)"
proof -
  have "s\<lparr>flags := insert BT_DEV_ENABLE (flags s)\<rparr> = s"
    using assms(2) by (simp add: insert_absorb)
  then show ?thesis
    using assms by (simp add: bt_enable_def bt_atomic_testsetbit_def bt_atomic_setbit_def)
qed

lemma bt_enable_first:
  assumes "btdev s" and "BT_DEV_ENABLE \<notin> flags s"
  shows "\<exists>r s1. bt_enable E cb s = Ret (r, s1)
               \<and> BT_DEV_ENABLE \<in> flags s1 \<and> btdev s1 \<and> keeps_ids s s1
               \<and> (\<exists>pre post. calls s1 = calls s @ pre @ DrvOpen # post)"
proof -
  define s1 where "s1 = bt_atomic_setbit BT_DEV_ENABLE s"
  have k1: "keeps_ids s s1" "BT_DEV_ENABLE \<in> flags s1" "btdev s1" "calls s1 = calls s"
    using assms by (simp_all add: s1_def bt_atomic_setbit_def keeps_ids_def)
  obtain r s2 where n: "bt_set_name E (device_name E) s1 = Ret (r, s2)"
      and k2: "keeps_ids s1 s2" "keeps_enable s1 s2"
    using bt_set_name_returns [of E "device_name E" s1] by blast
  obtain pre where pre: "calls s2 = calls s1 @ pre"
  proof (cases "strlen (device_name E) < length (name s1)
                \<and> c_str (name s1) \<noteq> c_str (device_name E)")
    case True
    from bt_set_name_new [of "device_name E" s1 E] True n
    have "if BT_DEV_ADVERTISING_NAME \<in> flags s1
          then \<exists>cs. calls s2 = calls s1 @ HciCmdCreate BT_HCI_OP_LE_SET_SCAN_RSP_DATA 32 # cs
          else calls s2 = calls s1"
      by auto
    then have "\<exists>cs. calls s2 = calls s1 @ cs"
      by (auto split: if_splits)
    then show ?thesis using that by blast
  next
    case False
    then have "s2 = s1"
      using n by (auto simp add: bt_set_name_def strcmp_def split: if_splits)
    then show ?thesis using that [of "[]"] by simp
  qed
  define s4 where "s4 = call DrvOpen (s2\<lparr>ready_cb := cb\<rparr>)"
  have k4: "keeps_ids s2 s4" "keeps_enable s2 s4" "calls s4 = calls s2 @ [DrvOpen]"
    by (simp_all add: s4_def call_def keeps_ids_def keeps_enable_def)
  have e4: "BT_DEV_ENABLE \<in> flags s4" "btdev s4" "keeps_ids s s4"
    using k1 k2 k4 by (simp_all add: keeps_enable_def keeps_ids_def)
  have c4: "calls s4 = calls s @ pre @ DrvOpen # []"
    using k4(3) pre k1(4) by simp
  have res: "bt_enable E cb s =
               (if drv_open E (calls s4) \<noteq> 0 then Ret (Val (drv_open E (calls s4)), s4)
                else if cb = None then Ret (Val (fst (bt_init E s4)), snd (bt_init E s4))
                else Ret (Val 0, k_work_submit E s4))"
    using assms n
    unfolding bt_enable_def bt_atomic_testsetbit_def s1_def [symmetric] Let_def s4_def
    by (simp add: split_def)
  consider (a) "bt_enable E cb s = Ret (Val (drv_open E (calls s4)), s4)"
    | (b) "bt_enable E cb s = Ret (Val (fst (bt_init E s4)), snd (bt_init E s4))"
    | (c) "bt_enable E cb s = Ret (Val 0, k_work_submit E s4)"
    using res by (auto split: if_splits)
  then show ?thesis
  proof cases
    case a
    then show ?thesis using e4 c4 by blast
  next
    case b
    obtain cs where "calls (snd (bt_init E s4)) = calls s4 @ cs"
      using bt_init_keeps(3) by blast
    then have "calls (snd (bt_init E s4)) = calls s @ pre @ DrvOpen # cs"
      using c4 by simp
    moreover have "BT_DEV_ENABLE \<in> flags (snd (bt_init E s4))" "btdev (snd (bt_init E s4))"
      "keeps_ids s (snd (bt_init E s4))"
      using e4 bt_init_keeps(1,2) [of s4 E] by (simp_all add: keeps_enable_def keeps_ids_def)
    ultimately show ?thesis using b by blast
  next
    case c
    obtain cs where "calls (k_work_submit E s4) = calls s4 @ cs"
      using k_work_submit_keeps(3) by blast
    then have "calls (k_work_submit E s4) = calls s @ pre @ DrvOpen # cs"
      using c4 by simp
    moreover have "BT_DEV_ENABLE \<in> flags (k_work_submit E s4)" "btdev (k_work_submit E s4)"
      "keeps_ids s (k_work_submit E s4)"
      using e4 k_work_submit_keeps(1,2) [of s4 E]
      by (simp_all add: keeps_enable_def keeps_ids_def)
    ultimately show ?thesis using c by blast
  qed
qed

lemma bt_enable_keeps:
  assumes "bt_enable E cb s = Ret (r, s')"
  shows "keeps_ids s s' \<and> keeps_enable s s'"
proof (cases "btdev s \<and> BT_DEV_ENABLE \<notin> flags s")
  case True
  from bt_enable_first [of s E cb] True assms show ?thesis
    by (auto simp add: keeps_enable_def)
next
  case False
  have "s' = s"
  proof (cases "btdev s")
    case True
    then show ?thesis
      using False assms bt_enable_again [of s E cb] by simp
  next
    case nodev: False
    then show ?thesis
      using assms by (simp add: bt_enable_def)
  qed
  then show ?thesis
    by (simp add: keeps_ids_refl keeps_enable_refl)
qed

lemma set_le_scan_enable_keeps:
  "keeps_ids s (snd (set_le_scan_enable E en s))"
  "keeps_enable s (snd (set_le_scan_enable E en s))"
  by (simp_all add: set_le_scan_enable_def call_def Let_def bt_atomic_setbit_def
      bt_atomic_clrbit_def keeps_ids_def keeps_enable_def)

lemma flag_update_keeps:
  "f \<noteq> BT_DEV_ENABLE \<Longrightarrow> keeps_enable s (bt_atomic_setbit f s)"
  "f \<noteq> BT_DEV_ENABLE \<Longrightarrow> keeps_enable s (bt_atomic_clrbit f s)"
  "keeps_ids s (bt_atomic_setbit f s)"
  "keeps_ids s (bt_atomic_clrbit f s)"
  "keeps_enable s (call c s)"
  "keeps_ids s (call c s)"
  by (simp_all add: bt_atomic_setbit_def bt_atomic_clrbit_def call_def keeps_ids_def
      keeps_enable_def)

lemma start_le_scan_keeps:
  "keeps_ids s (snd (start_le_scan E t i w s)) \<and> keeps_enable s (snd (start_le_scan E t i w s))"
proof (cases "hci_cmd_create E (calls s @ [HciCmdCreate BT_HCI_OP_LE_SET_SCAN_PARAMS 7])")
  case False
  then show ?thesis
    by (simp add: start_le_scan_def call_def Let_def keeps_ids_def keeps_enable_def)
next
  case True
  define s2 where "s2 = call (HciCmdSend BT_HCI_OP_LE_SET_SCAN_PARAMS
                         ([t] @ le16 i @ le16 w @ [0x00, 0x00]))
                         (call (HciCmdCreate BT_HCI_OP_LE_SET_SCAN_PARAMS 7) s)"
  obtain e s3 where e: "set_le_scan_enable E BT_LE_SCAN_ENABLE s2 = (e, s3)"
    by (cases "set_le_scan_enable E BT_LE_SCAN_ENABLE s2")
  have eq: "start_le_scan E t i w s =
              (if is_err e then (e, s3)
               else (Val 0, if t = BT_LE_SCAN_ACTIVE
                            then bt_atomic_setbit BT_DEV_ACTIVE_SCAN s3
                            else bt_atomic_clrbit BT_DEV_ACTIVE_SCAN s3))"
    using True e unfolding start_le_scan_def Let_def s2_def by (simp add: call_def)
  have k2: "keeps_ids s s2" "keeps_enable s s2"
    by (simp_all add: s2_def call_def keeps_ids_def keeps_enable_def)
  have k3: "keeps_ids s2 s3" "keeps_enable s2 s3"
    using set_le_scan_enable_keeps [of s2 E BT_LE_SCAN_ENABLE] e by simp_all
  have k: "keeps_ids s s3" "keeps_enable s s3"
    using k2 k3 keeps_ids_trans keeps_enable_trans by blast+
  show ?thesis
    unfolding eq using k
    by (simp add: keeps_ids_def keeps_enable_def bt_atomic_setbit_def bt_atomic_clrbit_def)
qed

lemma bt_le_scan_start_keeps:
  "keeps_ids s (snd (bt_le_scan_start E p cb s))
   \<and> keeps_enable s (snd (bt_le_scan_start E p cb s))"
proof (cases "BT_DEV_READY \<in> flags s \<and> valid_le_scan_param p \<and> BT_DEV_EXPLICIT_SCAN \<notin> flags s")
  case False
  have "s\<lparr>flags := insert BT_DEV_EXPLICIT_SCAN (flags s)\<rparr> = s" if "BT_DEV_EXPLICIT_SCAN \<in> flags s"
    using that by (simp add: insert_absorb)
  then have "snd (bt_le_scan_start E p cb s) = s"
    using False
    by (auto simp add: bt_le_scan_start_def bt_atomic_testbit_def bt_atomic_testsetbit_def
        bt_atomic_setbit_def)
  then show ?thesis
    by (simp add: keeps_ids_refl keeps_enable_refl)
next
  case True
  define s1 where "s1 = bt_atomic_setbit BT_DEV_EXPLICIT_SCAN s"
  obtain e s2 where e: "scan_stop_running E s1 = (e, s2)"
    by (cases "scan_stop_running E s1")
  define s3 where "s3 = (if filter_dup p \<noteq> 0
                         then bt_atomic_setbit BT_DEV_SCAN_FILTER_DUP s2
                         else bt_atomic_clrbit BT_DEV_SCAN_FILTER_DUP s2)"
  obtain e' s4 where e': "start_le_scan E (stype p) (interval p) (window p) s3 = (e', s4)"
    by (cases "start_le_scan E (stype p) (interval p) (window p) s3")
  have res: "bt_le_scan_start E p cb s =
               (if is_err e then (e, bt_atomic_clrbit BT_DEV_EXPLICIT_SCAN s2)
                else if is_err e' then (e', bt_atomic_clrbit BT_DEV_EXPLICIT_SCAN s4)
                else (Val 0, s4\<lparr>scan_dev_found_cb := cb\<rparr>))"
    using True e e'
    by (simp add: bt_le_scan_start_def bt_atomic_testbit_def bt_atomic_testsetbit_def
        s1_def [symmetric] s3_def [symmetric] Let_def)
  have k1: "keeps_ids s s1" "keeps_enable s s1"
    by (simp_all add: s1_def flag_update_keeps)
  have k2: "keeps_ids s1 s2" "keeps_enable s1 s2"
    using e set_le_scan_enable_keeps [of s1 E BT_LE_SCAN_DISABLE]
    by (auto simp add: scan_stop_running_def keeps_ids_refl keeps_enable_refl split: if_splits)
  have k3: "keeps_ids s2 s3" "keeps_enable s2 s3"
    by (simp_all add: s3_def flag_update_keeps)
  have k4: "keeps_ids s3 s4" "keeps_enable s3 s4"
    using start_le_scan_keeps [of s3 E "stype p" "interval p" "window p"] e' by simp_all
  have a2: "keeps_ids s s2" "keeps_enable s s2"
    using k1 k2 keeps_ids_trans keeps_enable_trans by blast+
  have a4: "keeps_ids s s4" "keeps_enable s s4"
    using a2 k3 k4 keeps_ids_trans keeps_enable_trans by blast+
  show ?thesis
    unfolding res using a2 a4
    by (simp add: keeps_ids_def keeps_enable_def bt_atomic_clrbit_def)
qed

lemma bt_id_delete_keeps:
  assumes "bt_id_delete idx s = Ret (r, s')"
  shows "keeps_enable s s'"
  using bt_id_delete_result [OF assms] by (auto simp add: keeps_enable_def)

lemma api_call_table_ok:
  assumes "api_call E c s = Ret s'" and "id_table_ok s"
  shows "id_table_ok s'"
proof (cases c)
  case (Bt_set_name nm)
  then show ?thesis
    using assms bt_set_name_returns [of E nm s] table_ok_keeps_ids
    by (auto simp add: state_of_def)
next
  case (Bt_enable cb)
  then obtain r where "bt_enable E cb s = Ret (r, s')"
    using assms(1) by (auto simp add: state_of_def split: result.splits)
  then show ?thesis
    using bt_enable_keeps assms(2) table_ok_keeps_ids by blast
next
  case Init_work
  then show ?thesis
    using assms init_work_keeps [of s E] table_ok_keeps_ids
    by (auto split: if_splits)
next
  case (Bt_set_id_addr a)
  then obtain r where "bt_set_id_addr E a s = Ret (r, s')"
    using assms(1) by (auto simp add: state_of_def split: result.splits)
  then have "s' = s \<or> bt_id_create E (Some a) s = Ret (r, s')"
    by (auto simp add: bt_set_id_addr_def split: if_splits)
  then show ?thesis
    using assms(2) table_ok_create by blast
next
  case (Bt_id_create a)
  then obtain r where "bt_id_create E a s = Ret (r, s')"
    using assms(1) by (auto simp add: state_of_def split: result.splits)
  then show ?thesis
    using assms(2) table_ok_create by blast
next
  case (Bt_id_reset i a)
  then obtain r where "bt_id_reset E i a s = Ret (r, s')"
    using assms(1) by (auto simp add: state_of_def split: result.splits)
  then show ?thesis
    using assms(2) table_ok_reset by blast
next
  case (Bt_id_delete i)
  then obtain r where "bt_id_delete i s = Ret (r, s')"
    using assms(1) by (auto simp add: state_of_def split: result.splits)
  then show ?thesis
    using assms(2) table_ok_delete by blast
next
  case (Bt_le_scan_start p cb)
  then show ?thesis
    using assms bt_le_scan_start_keeps [of s E p cb] table_ok_keeps_ids by auto
qed

lemma run_table_ok:
  assumes "run E cs s = Ret s'" and "id_table_ok s"
  shows "id_table_ok s'"
  using assms
proof (induction cs arbitrary: s)
  case Nil
  then show ?case by simp
next
  case (Cons c cs)
  then obtain s1 where c: "api_call E c s = Ret s1" and r: "run E cs s1 = Ret s'"
    by (auto split: result.splits)
  from api_call_table_ok [OF c Cons.prems(2)] show ?case
    using Cons.IH [OF r] by blast
qed

lemma new_static_addr_frame:
  assumes "new_static_addr E s = Some y"
  shows "\<forall>a s1. y = Ret (a, s1) \<longrightarrow> (\<exists>cs. s1 = s\<lparr>calls := cs\<rparr>)"
proof (rule new_static_addr.raw_induct
    [where P = "\<lambda>E s y. \<forall>a s1. y = Ret (a, s1) \<longrightarrow> (\<exists>cs. s1 = s\<lparr>calls := cs\<rparr>)", OF _ assms])
  fix f :: "env \<Rightarrow> bt_dev_s \<Rightarrow> (bt_addr_le \<times> bt_dev_s) result option"
  fix E s y
  assume IH: "\<And>E s y. f E s = Some y \<Longrightarrow>
                \<forall>a s1. y = Ret (a, s1) \<longrightarrow> (\<exists>cs. s1 = s\<lparr>calls := cs\<rparr>)"
  assume body: "(let p = bt_addr_le_create_static E s; a = fst (snd p); s1 = snd (snd p);
          f' = id_find a s1
      in if f' = Fault then Some Fault
         else if found f' then f E s1
         else Some (Ret (a, s1))) = Some y"
  obtain err a s1 where c: "bt_addr_le_create_static E s = (err, a, s1)"
    by (cases "bt_addr_le_create_static E s")
  have s1: "s1 = s\<lparr>calls := calls s @ [BtRand]\<rparr>"
    using create_static_frame [OF c] by simp
  show "\<forall>a s1. y = Ret (a, s1) \<longrightarrow> (\<exists>cs. s1 = s\<lparr>calls := cs\<rparr>)"
  proof (intro allI impI)
    fix b t assume y: "y = Ret (b, t)"
    consider (again) "f E s1 = Some y" | (stop) "y = Ret (a, s1)"
      using body c y by (auto simp add: Let_def split: if_splits)
    then show "\<exists>cs. t = s\<lparr>calls := cs\<rparr>"
    proof cases
      case again
      from IH [OF again] y obtain cs where "t = s1\<lparr>calls := cs\<rparr>" by blast
      then have "t = s\<lparr>calls := cs\<rparr>"
        by (subst (asm) s1) simp
      then show ?thesis by blast
    next
      case stop
      then have "t = s\<lparr>calls := calls s @ [BtRand]\<rparr>"
        using y s1 by simp
      then show ?thesis by blast
    qed
  qed
qed

lemma id_create_keeps_enable:
  assumes "id_create E idx addr s = Ret s'"
  shows "keeps_enable s s'"
proof (cases "\<exists>b. addr = Some b \<and> b \<noteq> BT_ADDR_LE_ANY")
  case True
  then obtain b where "addr = Some b" "b \<noteq> BT_ADDR_LE_ANY" by blast
  then have "id_store idx b s = Ret s'"
    using assms id_create_supplied by simp
  then show ?thesis
    by (auto simp add: id_store_def keeps_enable_def split: if_splits)
next
  case False
  then have sel: "(if addr = None then None
            else if bt_addr_le_cmp (the addr) BT_ADDR_LE_ANY then addr else None) = None"
    by (cases addr) (auto simp add: bt_addr_le_cmp_def)
  obtain a s1 where n: "new_static_addr E s = Some (Ret (a, s1))"
      and st: "id_store idx a s1 = Ret s'"
    using assms unfolding id_create_def sel
    by (auto split: option.splits result.splits)
  from new_static_addr_frame [OF n] obtain cs where "s1 = s\<lparr>calls := cs\<rparr>"
    by blast
  then show ?thesis
    using st by (auto simp add: id_store_def keeps_enable_def split: if_splits)
qed

lemma bt_id_create_keeps_enable:
  assumes "bt_id_create E addr s = Ret (r, s')"
  shows "keeps_enable s s'"
proof (cases "id_addr_check addr s = Ret None \<and> id_count s \<noteq> length (id_addr s)")
  case False
  then have "s' = s"
    using assms by (auto simp add: bt_id_create_def split: result.splits option.splits if_splits)
  then show ?thesis by (simp add: keeps_enable_refl)
next
  case True
  define s2 where "s2 = (if id_count s = BT_ID_DEFAULT
                            \<and> \<not> bt_atomic_testbit (s\<lparr>id_count := id_count s + 1\<rparr>) BT_DEV_READY
                       then bt_atomic_setbit BT_DEV_USER_ID_ADDR (s\<lparr>id_count := id_count s + 1\<rparr>)
                       else s\<lparr>id_count := id_count s + 1\<rparr>)"
  have k2: "keeps_enable s s2"
    by (simp add: s2_def keeps_enable_def bt_atomic_setbit_def)
  have eq: "bt_id_create E addr s =
              (case id_create E (id_count s) addr s2 of
                 Ret s3 \<Rightarrow> Ret (Val (int (id_count s)), s3)
               | Fault \<Rightarrow> Fault
               | Hang \<Rightarrow> Hang)"
    using True unfolding bt_id_create_def s2_def Let_def by simp
  have "id_create E (id_count s) addr s2 = Ret s'"
    using assms unfolding eq by (cases "id_create E (id_count s) addr s2"; simp)
  then show ?thesis
    using id_create_keeps_enable k2 keeps_enable_trans by blast
qed

lemma bt_id_reset_keeps_enable:
  assumes "bt_id_reset E idx addr s = Ret (r, s')"
  shows "keeps_enable s s'"
proof (cases "\<exists>s1. id_create E idx addr s = Ret s1 \<and> s' = s1")
  case False
  then have "s' = s"
    using assms
    by (auto simp add: bt_id_reset_def bt_unpair_def split: result.splits option.splits if_splits)
  then show ?thesis by (simp add: keeps_enable_refl)
next
  case True
  then show ?thesis
    using id_create_keeps_enable by blast
qed

lemma api_call_keeps_enable:
  assumes "api_call E c s = Ret s'"
  shows "keeps_enable s s'"
proof (cases c)
  case (Bt_set_name nm)
  then show ?thesis
    using assms bt_set_name_returns [of E nm s] by (auto simp add: state_of_def)
next
  case (Bt_enable cb)
  then obtain r where "bt_enable E cb s = Ret (r, s')"
    using assms by (auto simp add: state_of_def split: result.splits)
  then show ?thesis
    using bt_enable_keeps by blast
next
  case Init_work
  then show ?thesis
    using assms init_work_keeps [of s E] keeps_enable_refl by (auto split: if_splits)
next
  case (Bt_set_id_addr a)
  then obtain r where "bt_set_id_addr E a s = Ret (r, s')"
    using assms by (auto simp add: state_of_def split: result.splits)
  then have "s' = s \<or> bt_id_create E (Some a) s = Ret (r, s')"
    by (auto simp add: bt_set_id_addr_def split: if_splits)
  then show ?thesis
    using bt_id_create_keeps_enable keeps_enable_refl by blast
next
  case (Bt_id_create a)
  then obtain r where "bt_id_create E a s = Ret (r, s')"
    using assms by (auto simp add: state_of_def split: result.splits)
  then show ?thesis
    using bt_id_create_keeps_enable by blast
next
  case (Bt_id_reset i a)
  then obtain r where "bt_id_reset E i a s = Ret (r, s')"
    using assms by (auto simp add: state_of_def split: result.splits)
  then show ?thesis
    using bt_id_reset_keeps_enable by blast
next
  case (Bt_id_delete i)
  then obtain r where "bt_id_delete i s = Ret (r, s')"
    using assms by (auto simp add: state_of_def split: result.splits)
  then show ?thesis
    using bt_id_delete_keeps by blast
next
  case (Bt_le_scan_start p cb)
  then show ?thesis
    using assms bt_le_scan_start_keeps [of s E p cb] by auto
qed

lemma run_keeps_enable:
  assumes "run E cs s = Ret s'"
  shows "keeps_enable s s'"
  using assms
proof (induction cs arbitrary: s)
  case Nil
  then show ?case by (simp add: keeps_enable_refl)
next
  case (Cons c cs)
  then obtain s1 where c: "api_call E c s = Ret s1" and r: "run E cs s1 = Ret s'"
    by (auto split: result.splits)
  show ?case
    using api_call_keeps_enable [OF c] Cons.IH [OF r] keeps_enable_trans by blast
qed

subsection \<open>Enabling once\<close>

lemma bt_init_unfold:
  "bt_init E s =
     (let hI = calls s @ [HciInitialize]; hL = hI @ [L2capInit]
      in if hci_initialize E hI < 0 then (hci_initialize E hI, s\<lparr>calls := hI\<rparr>)
         else if l2cap_init E hL < 0 then (l2cap_init E hL, s\<lparr>calls := hL\<rparr>)
         else (l2cap_init E hL, s\<lparr>calls := hL, flags := insert BT_DEV_READY (flags s)\<rparr>))"
  by (simp add: bt_init_def bt_conn_init_def bt_finalize_init_def call_def Let_def
      bt_atomic_setbit_def)

lemma k_work_submit_unfold:
  "k_work_submit E s =
     (let hW = calls s @ [WorkQueue]
      in if \<not> work_available E (calls s) then s
         else if work_queue E hW < 0 then s\<lparr>calls := hW\<rparr>
         else s\<lparr>calls := hW, hip_work_queued := True\<rparr>)"
  by (simp add: k_work_submit_def call_def Let_def)

lemma init_work_unfold:
  "init_work E t =
     (let hI = calls t @ [HciInitialize]; hL = hI @ [L2capInit];
          t0 = t\<lparr>hip_work_queued := False\<rparr>;
          report = (\<lambda>err. case ready_cb t of Some k \<Rightarrow> [ReadyCb k err] | None \<Rightarrow> [])
      in if hci_initialize E hI < 0
         then t0\<lparr>calls := hI @ report (hci_initialize E hI)\<rparr>
         else if l2cap_init E hL < 0
         then t0\<lparr>calls := hL @ report (l2cap_init E hL)\<rparr>
         else t0\<lparr>calls := hL @ report (l2cap_init E hL),
                 flags := insert BT_DEV_READY (flags t)\<rparr>)"
  by (simp add: init_work_def bt_init_unfold call_def Let_def split: option.splits)

lemma bt_enable_unfold:
  assumes "btdev s" and "BT_DEV_ENABLE \<notin> flags s"
    and n: "bt_set_name E (device_name E) (s\<lparr>flags := insert BT_DEV_ENABLE (flags s)\<rparr>)
            = Ret (r0, s2)"
  shows "bt_enable E cb s =
     (let h = calls s2 @ [DrvOpen]; s4 = s2\<lparr>ready_cb := cb, calls := h\<rparr>;
          hI = h @ [HciInitialize]; hL = hI @ [L2capInit]; hW = h @ [WorkQueue]
      in if drv_open E h \<noteq> 0 then Ret (Val (drv_open E h), s4)
         else if cb = None
         then (if hci_initialize E hI < 0
               then Ret (Val (hci_initialize E hI), s4\<lparr>calls := hI\<rparr>)
               else if l2cap_init E hL < 0
               then Ret (Val (l2cap_init E hL), s4\<lparr>calls := hL\<rparr>)
               else Ret (Val (l2cap_init E hL),
                         s4\<lparr>calls := hL, flags := insert BT_DEV_READY (flags s2)\<rparr>))
         else if \<not> work_available E h then Ret (Val 0, s4)
         else if work_queue E hW < 0 then Ret (Val 0, s4\<lparr>calls := hW\<rparr>)
         else Ret (Val 0, s4\<lparr>calls := hW, hip_work_queued := True\<rparr>))"
  using assms
  by (simp add: bt_enable_def bt_atomic_testsetbit_def bt_atomic_setbit_def n
      bt_init_unfold k_work_submit_unfold call_def Let_def)


lemma bt_set_name_plain:
  assumes "BT_DEV_ADVERTISING_NAME \<notin> flags s"
  shows "bt_set_name E nm s =
           (if length (name s) \<le> strlen nm then Ret (Neg ENOMEM, s)
            else if c_str (name s) = c_str nm then Ret (Val 0, s)
            else Ret (Val 0, s\<lparr>name := strncpy (name s) nm (length (name s))\<rparr>))"
  using assms by (simp add: bt_set_name_def strcmp_def bt_atomic_testbit_def Let_def)

text \<open>
  C8. With a driver bound and \<open>BT_DEV_ENABLE\<close> clear, \<open>bt_enable\<close> returns and has set
  the flag. It has then set the device name (when no name is being advertised: the
  configured name copied into the name array if it fits and differs, nothing otherwise),
  stored the callback and opened the driver; a non-zero status of the driver is returned
  as it is. Without a callback it has run the initialisation itself: the controller
  initialisation, then the L2CAP initialisation, each negative status returned at once,
  and \<open>BT_DEV_READY\<close> set only after both; with a callback it has returned 0 after
  queueing the work item, when the item was available. The work item, when it runs,
  performs the same initialisation and reports its status to the callback. From then on,
  after any run of calls into the file, every \<open>bt_enable\<close> returns \<open>-EALREADY\<close> and
  leaves the whole state, the history of external calls included, as it was.
\<close>

theorem bt_enable_once:
  assumes "btdev s" and "BT_DEV_ENABLE \<notin> flags s"
  shows "\<exists>r s1 r0 s2.
           bt_enable E cb s = Ret (r, s1)
         \<and> BT_DEV_ENABLE \<in> flags s1
         \<and> (\<exists>pre post. calls s1 = calls s @ pre @ DrvOpen # post)
         \<and> bt_set_name E (device_name E) (s\<lparr>flags := insert BT_DEV_ENABLE (flags s)\<rparr>)
             = Ret (r0, s2)
         \<and> (BT_DEV_ADVERTISING_NAME \<notin> flags s \<longrightarrow>
              s2 = (if strlen (device_name E) < length (name s)
                       \<and> c_str (name s) \<noteq> c_str (device_name E)
                    then s\<lparr>flags := insert BT_DEV_ENABLE (flags s),
                           name := strncpy (name s) (device_name E) (length (name s))\<rparr>
                    else s\<lparr>flags := insert BT_DEV_ENABLE (flags s)\<rparr>))
         \<and> (let h = calls s2 @ [DrvOpen]; s4 = s2\<lparr>ready_cb := cb, calls := h\<rparr>;
                 hI = h @ [HciInitialize]; hL = hI @ [L2capInit]; hW = h @ [WorkQueue]
             in (r, s1) =
                (if drv_open E h \<noteq> 0 then (Val (drv_open E h), s4)
                 else if cb = None
                 then (if hci_initialize E hI < 0
                       then (Val (hci_initialize E hI), s4\<lparr>calls := hI\<rparr>)
                       else if l2cap_init E hL < 0
                       then (Val (l2cap_init E hL), s4\<lparr>calls := hL\<rparr>)
                       else (Val (l2cap_init E hL),
                             s4\<lparr>calls := hL, flags := insert BT_DEV_READY (flags s2)\<rparr>))
                 else if \<not> work_available E h then (Val 0, s4)
                 else if work_queue E hW < 0 then (Val 0, s4\<lparr>calls := hW\<rparr>)
                 else (Val 0, s4\<lparr>calls := hW, hip_work_queued := True\<rparr>)))
         \<and> (\<forall>t. init_work E t =
               (let hI = calls t @ [HciInitialize]; hL = hI @ [L2capInit];
                    t0 = t\<lparr>hip_work_queued := False\<rparr>;
                    report = (\<lambda>err. case ready_cb t of Some k \<Rightarrow> [ReadyCb k err]
                                     | None \<Rightarrow> [])
                in if hci_initialize E hI < 0
                   then t0\<lparr>calls := hI @ report (hci_initialize E hI)\<rparr>
                   else if l2cap_init E hL < 0
                   then t0\<lparr>calls := hL @ report (l2cap_init E hL)\<rparr>
                   else t0\<lparr>calls := hL @ report (l2cap_init E hL),
                           flags := insert BT_DEV_READY (flags t)\<rparr>))
         \<and> (\<forall>cs s' cb'. run E cs s1 = Ret s'
               \<longrightarrow> bt_enable E cb' s' = Ret (Neg EALREADY, s'))"
proof -
  define se where "se = s\<lparr>flags := insert BT_DEV_ENABLE (flags s)\<rparr>"
  from bt_enable_first [OF assms, of E cb] obtain r s1
    where e: "bt_enable E cb s = Ret (r, s1)"
      and f: "BT_DEV_ENABLE \<in> flags s1" "btdev s1"
      and c: "\<exists>pre post. calls s1 = calls s @ pre @ DrvOpen # post"
    by blast
  obtain r0 s2 where n: "bt_set_name E (device_name E) se = Ret (r0, s2)"
    using bt_set_name_returns [of E "device_name E" se] by blast
  have nm: "s2 = (if strlen (device_name E) < length (name s)
                       \<and> c_str (name s) \<noteq> c_str (device_name E)
                  then s\<lparr>flags := insert BT_DEV_ENABLE (flags s),
                         name := strncpy (name s) (device_name E) (length (name s))\<rparr>
                  else s\<lparr>flags := insert BT_DEV_ENABLE (flags s)\<rparr>)"
    if "BT_DEV_ADVERTISING_NAME \<notin> flags s"
  proof -
    have "BT_DEV_ADVERTISING_NAME \<notin> flags se"
      using that by (simp add: se_def)
    from bt_set_name_plain [OF this, of E "device_name E"] n show ?thesis
      by (auto simp add: se_def split: if_splits)
  qed
  have u: "(let h = calls s2 @ [DrvOpen]; s4 = s2\<lparr>ready_cb := cb, calls := h\<rparr>;
                 hI = h @ [HciInitialize]; hL = hI @ [L2capInit]; hW = h @ [WorkQueue]
             in (r, s1) =
                (if drv_open E h \<noteq> 0 then (Val (drv_open E h), s4)
                 else if cb = None
                 then (if hci_initialize E hI < 0
                       then (Val (hci_initialize E hI), s4\<lparr>calls := hI\<rparr>)
                       else if l2cap_init E hL < 0
                       then (Val (l2cap_init E hL), s4\<lparr>calls := hL\<rparr>)
                       else (Val (l2cap_init E hL),
                             s4\<lparr>calls := hL, flags := insert BT_DEV_READY (flags s2)\<rparr>))
                 else if \<not> work_available E h then (Val 0, s4)
                 else if work_queue E hW < 0 then (Val 0, s4\<lparr>calls := hW\<rparr>)
                 else (Val 0, s4\<lparr>calls := hW, hip_work_queued := True\<rparr>)))"
    using bt_enable_unfold [OF assms n [unfolded se_def], of cb] e
    by (simp add: Let_def split: if_splits)
  have a: "bt_enable E cb' s' = Ret (Neg EALREADY, s')" if "run E cs s1 = Ret s'" for cs s' cb'
  proof -
    from run_keeps_enable [OF that] f have "btdev s'" "BT_DEV_ENABLE \<in> flags s'"
      by (simp_all add: keeps_enable_def)
    then show ?thesis by (rule bt_enable_again)
  qed
  have w: "\<forall>t. init_work E t =
               (let hI = calls t @ [HciInitialize]; hL = hI @ [L2capInit];
                    t0 = t\<lparr>hip_work_queued := False\<rparr>;
                    report = (\<lambda>err. case ready_cb t of Some k \<Rightarrow> [ReadyCb k err]
                                     | None \<Rightarrow> [])
                in if hci_initialize E hI < 0
                   then t0\<lparr>calls := hI @ report (hci_initialize E hI)\<rparr>
                   else if l2cap_init E hL < 0
                   then t0\<lparr>calls := hL @ report (l2cap_init E hL)\<rparr>
                   else t0\<lparr>calls := hL @ report (l2cap_init E hL),
                           flags := insert BT_DEV_READY (flags t)\<rparr>)"
    using init_work_unfold by blast
  show ?thesis
    apply (rule exI [of _ r], rule exI [of _ s1], rule exI [of _ r0], rule exI [of _ s2])
    using e f(1) c n [unfolded se_def] nm u w a by blast
qed


theorem bt_enable_once_witness:
  "btdev dev_boot \<and> BT_DEV_ENABLE \<notin> flags dev_boot
   \<and> bt_enable env_ok None dev_boot = Ret (Val 0, dev_enabled)
   \<and> BT_DEV_ENABLE \<in> flags dev_enabled
   \<and> bt_enable env_ok (Some 1) dev_enabled = Ret (Neg EALREADY, dev_enabled)
   \<and> run env_ok [Bt_set_name ''ab'', Bt_id_create (Some addr_a)] dev_enabled
     = Ret (dev_enabled\<lparr>name := ''ab'' @ replicate 6 NUL,
                        id_addr := [addr_a, BT_ADDR_LE_ANY, BT_ADDR_LE_ANY, BT_ADDR_LE_ANY],
                        id_count := 1\<rparr>)
   \<and> bt_enable env_ok None
        (dev_enabled\<lparr>name := ''ab'' @ replicate 6 NUL,
                      id_addr := [addr_a, BT_ADDR_LE_ANY, BT_ADDR_LE_ANY, BT_ADDR_LE_ANY],
                      id_count := 1\<rparr>)
     = Ret (Neg EALREADY,
            dev_enabled\<lparr>name := ''ab'' @ replicate 6 NUL,
                        id_addr := [addr_a, BT_ADDR_LE_ANY, BT_ADDR_LE_ANY, BT_ADDR_LE_ANY],
                        id_count := 1\<rparr>)
   \<and> bt_enable env_ok (Some 1) dev_boot
     = Ret (Val 0, dev_boot\<lparr>flags := {BT_DEV_ENABLE}, name := ''bt'' @ replicate 6 NUL,
                            ready_cb := Some 1, hip_work_queued := True,
                            calls := [DrvOpen, WorkQueue]\<rparr>)
   \<and> init_work env_ok
        (dev_boot\<lparr>flags := {BT_DEV_ENABLE}, name := ''bt'' @ replicate 6 NUL,
                   ready_cb := Some 1, hip_work_queued := True,
                   calls := [DrvOpen, WorkQueue]\<rparr>)
     = dev_boot\<lparr>flags := {BT_DEV_ENABLE, BT_DEV_READY}, name := ''bt'' @ replicate 6 NUL,
                 ready_cb := Some 1, hip_work_queued := False,
                 calls := [DrvOpen, WorkQueue, HciInitialize, L2capInit, ReadyCb 1 0]\<rparr>
   \<and> bt_enable (env_ok\<lparr>hci_initialize := (\<lambda>h. - 5)\<rparr>) None dev_boot
     = Ret (Val (- 5), dev_boot\<lparr>flags := {BT_DEV_ENABLE}, name := ''bt'' @ replicate 6 NUL,
                                calls := [DrvOpen, HciInitialize]\<rparr>)
   \<and> bt_enable (env_ok\<lparr>drv_open := (\<lambda>h. - 19)\<rparr>) None dev_boot
     = Ret (Val (- 19), dev_boot\<lparr>flags := {BT_DEV_ENABLE}, name := ''bt'' @ replicate 6 NUL,
                                 calls := [DrvOpen]\<rparr>)"
proof -
  let ?later = "dev_enabled\<lparr>name := ''ab'' @ replicate 6 NUL,
                        id_addr := [addr_a, BT_ADDR_LE_ANY, BT_ADDR_LE_ANY, BT_ADDR_LE_ANY],
                        id_count := 1\<rparr>"
  let ?queued = "dev_boot\<lparr>flags := {BT_DEV_ENABLE}, name := ''bt'' @ replicate 6 NUL,
                   ready_cb := Some 1, hip_work_queued := True,
                   calls := [DrvOpen, WorkQueue]\<rparr>"
  have b: "btdev dev_boot" "BT_DEV_ENABLE \<notin> flags dev_boot"
    by (simp_all add: dev_boot_def)
  have nm: "strncpy (replicate 8 NUL) ''bt'' 8 = ''bt'' @ replicate 6 NUL"
    "strlen ''bt'' = 2" "c_str (replicate 8 NUL) \<noteq> c_str ''bt''"
    by code_simp+
  have e: "bt_enable env_ok None dev_boot = Ret (Val 0, dev_enabled)"
    using bt_enable_once [OF b, of env_ok None]
    by (auto simp add: Let_def dev_boot_def env_ok_def dev_enabled_def nm insert_commute)
  have f: "BT_DEV_ENABLE \<in> flags dev_enabled"
    by (simp add: dev_enabled_def)
  have r: "run env_ok [Bt_set_name ''ab'', Bt_id_create (Some addr_a)] dev_enabled = Ret ?later"
    by code_simp
  from bt_enable_once [OF b, of env_ok None] e
  have all: "\<forall>cs s2 cb'. run env_ok cs dev_enabled = Ret s2
               \<longrightarrow> bt_enable env_ok cb' s2 = Ret (Neg EALREADY, s2)"
    by auto
  have a1: "bt_enable env_ok (Some 1) dev_enabled = Ret (Neg EALREADY, dev_enabled)"
    using all [rule_format, of "[]" dev_enabled "Some 1"] by simp
  have a2: "bt_enable env_ok None ?later = Ret (Neg EALREADY, ?later)"
    using all [rule_format, OF r, of None] by simp
  have q: "bt_enable env_ok (Some 1) dev_boot = Ret (Val 0, ?queued)"
    using bt_enable_once [OF b, of env_ok "Some 1"]
    by (auto simp add: Let_def dev_boot_def env_ok_def nm)
  have w: "init_work env_ok ?queued
     = dev_boot\<lparr>flags := {BT_DEV_ENABLE, BT_DEV_READY}, name := ''bt'' @ replicate 6 NUL,
                 ready_cb := Some 1, hip_work_queued := False,
                 calls := [DrvOpen, WorkQueue, HciInitialize, L2capInit, ReadyCb 1 0]\<rparr>"
    using bt_enable_once [OF b, of env_ok "Some 1"]
    by (auto simp add: Let_def dev_boot_def env_ok_def insert_commute)
  have i: "bt_enable (env_ok\<lparr>hci_initialize := (\<lambda>h. - 5)\<rparr>) None dev_boot
     = Ret (Val (- 5), dev_boot\<lparr>flags := {BT_DEV_ENABLE}, name := ''bt'' @ replicate 6 NUL,
                                calls := [DrvOpen, HciInitialize]\<rparr>)"
    using bt_enable_once [OF b, of "env_ok\<lparr>hci_initialize := (\<lambda>h. - 5)\<rparr>" None]
    by (auto simp add: Let_def dev_boot_def env_ok_def nm)
  have d: "bt_enable (env_ok\<lparr>drv_open := (\<lambda>h. - 19)\<rparr>) None dev_boot
     = Ret (Val (- 19), dev_boot\<lparr>flags := {BT_DEV_ENABLE}, name := ''bt'' @ replicate 6 NUL,
                                 calls := [DrvOpen]\<rparr>)"
    using bt_enable_once [OF b, of "env_ok\<lparr>drv_open := (\<lambda>h. - 19)\<rparr>" None]
    by (auto simp add: Let_def dev_boot_def env_ok_def nm)
  show ?thesis
    using b e f a1 r a2 q w i d by simp
qed

subsection \<open>Distinct identities\<close>

text \<open>Two runs on the sample device, evaluated.\<close>

lemma run_four_then_two_deleted:
  "run env_ok [Bt_id_create (Some addr_a), Bt_id_create (Some addr_b),
               Bt_id_create (Some addr_c), Bt_id_create (Some addr_d),
               Bt_id_delete 1, Bt_id_delete 2] dev_boot
   = Ret (dev_ids [addr_a, BT_ADDR_LE_ANY, BT_ADDR_LE_ANY, addr_d] 4)"
  by code_simp

lemma create_generated:
  "api_call env_ok (Bt_id_create None) dev_boot
   = Ret ((dev_ids [addr_a, BT_ADDR_LE_ANY, BT_ADDR_LE_ANY, BT_ADDR_LE_ANY] 1)
            \<lparr>calls := [BtRand]\<rparr>)"
  by (simp add: bt_id_create_generated state_of_def)

lemma run_after_generated:
  "run env_ok [Bt_id_create (Some addr_b), Bt_id_create (Some addr_a), Bt_id_reset 1 (Some addr_c),
               Bt_set_id_addr addr_d, Bt_id_delete 2]
     ((dev_ids [addr_a, BT_ADDR_LE_ANY, BT_ADDR_LE_ANY, BT_ADDR_LE_ANY] 1)
        \<lparr>calls := [BtRand]\<rparr>)
   = Ret ((dev_ids [addr_a, addr_c, BT_ADDR_LE_ANY, BT_ADDR_LE_ANY] 2)
            \<lparr>calls := [BtRand]\<rparr>)"
  by code_simp

lemma run_generated:
  "run env_ok [Bt_id_create None, Bt_id_create (Some addr_b), Bt_id_create (Some addr_a),
               Bt_id_reset 1 (Some addr_c), Bt_set_id_addr addr_d, Bt_id_delete 2] dev_boot
   = Ret ((dev_ids [addr_a, addr_c, BT_ADDR_LE_ANY, BT_ADDR_LE_ANY] 2)
            \<lparr>calls := [BtRand]\<rparr>)"
  using run_after_generated
  by (simp only: run.simps(2) [of _ "Bt_id_create None"] create_generated result.case)

text \<open>
  C3, as amended. Starting with no identity, after every run of calls into the file
  (the identity operations among them) the count does not exceed the capacity and no two
  entries below \<open>id_count\<close> that are not the wildcard address are equal.
\<close>

theorem ids_distinct_except_wildcard:
  assumes "id_count s0 = 0" and "run E cs s0 = Ret s"
  shows "id_count s \<le> length (id_addr s)
       \<and> distinct (filter (\<lambda>a. a \<noteq> BT_ADDR_LE_ANY) (take (id_count s) (id_addr s)))"
proof -
  have "id_table_ok s0"
    using assms(1) by (simp add: id_table_ok_def)
  from run_table_ok [OF assms(2) this] show ?thesis
    by (simp add: id_table_ok_def)
qed

theorem ids_distinct_except_wildcard_witness:
  "id_count dev_boot = 0
   \<and> run env_ok [Bt_id_create None, Bt_id_create (Some addr_b), Bt_id_create (Some addr_a),
                 Bt_id_reset 1 (Some addr_c), Bt_set_id_addr addr_d, Bt_id_delete 2] dev_boot
     = Ret ((dev_ids [addr_a, addr_c, BT_ADDR_LE_ANY, BT_ADDR_LE_ANY] 2)\<lparr>calls := [BtRand]\<rparr>)
   \<and> distinct (filter (\<lambda>a. a \<noteq> BT_ADDR_LE_ANY)
        (take (id_count ((dev_ids [addr_a, addr_c, BT_ADDR_LE_ANY, BT_ADDR_LE_ANY] 2)
                           \<lparr>calls := [BtRand]\<rparr>))
              (id_addr ((dev_ids [addr_a, addr_c, BT_ADDR_LE_ANY, BT_ADDR_LE_ANY] 2)
                          \<lparr>calls := [BtRand]\<rparr>))))"
proof -
  have z: "id_count dev_boot = 0"
    by (simp add: dev_boot_def)
  show ?thesis
    using ids_distinct_except_wildcard [OF z run_generated] z run_generated
    by simp
qed

text \<open>
  C3 as stated fails: \<open>bt_id_delete\<close> leaves the wildcard address in a slot that is
  not the last, so after four identities were created and identities 1 and 2 deleted,
  entries 1 and 2 are equal while \<open>id_count\<close> is still 4.
\<close>

theorem ids_distinct_counterexample:
  "run env_ok [Bt_id_create (Some addr_a), Bt_id_create (Some addr_b),
               Bt_id_create (Some addr_c), Bt_id_create (Some addr_d),
               Bt_id_delete 1, Bt_id_delete 2] dev_boot
     = Ret (dev_ids [addr_a, BT_ADDR_LE_ANY, BT_ADDR_LE_ANY, addr_d] 4)
   \<and> id_addr (dev_ids [addr_a, BT_ADDR_LE_ANY, BT_ADDR_LE_ANY, addr_d] 4) ! 1
     = id_addr (dev_ids [addr_a, BT_ADDR_LE_ANY, BT_ADDR_LE_ANY, addr_d] 4) ! 2
   \<and> \<not> distinct (take (id_count (dev_ids [addr_a, BT_ADDR_LE_ANY, BT_ADDR_LE_ANY, addr_d] 4))
                     (id_addr (dev_ids [addr_a, BT_ADDR_LE_ANY, BT_ADDR_LE_ANY, addr_d] 4)))"
  using run_four_then_two_deleted by (simp add: dev_ids_def)

end
